theory Spec2Isabelle
  imports Main "HOL-Library.Sublist"
begin

section \<open>Ticket reference parser (src/services/jira.service.ts)\<close>

text \<open>
  \<^verbatim>\<open>extractTicketKey\<close> tries two regular expressions in order and returns capture group 1
  of the first one that matches. Both are built from three kinds of regex items only:
  a literal character, the class \<^verbatim>\<open>[A-Z]\<close> or \<^verbatim>\<open>\d\<close> under \<^verbatim>\<open>+\<close>, and one capture group.
  The matcher below is the backtracking semantics of such a pattern: \<open>matches\<close> lists every
  way the items match a prefix of the input, in the order a backtracking engine tries them
  (a \<^verbatim>\<open>+\<close> takes as much as it can first), and the engine's answer is the first entry.
  JavaScript's \<^verbatim>\<open>[A-Z]\<close> and \<^verbatim>\<open>\d\<close> (no \<^verbatim>\<open>i\<close> or \<^verbatim>\<open>u\<close> flag) are the ASCII ranges.
\<close>

datatype cls = Upper | Digit

datatype atom = Lit char | Plus cls

datatype regex = Regex (lead: "atom list") (grp: "atom list")

definition isUpper :: "char \<Rightarrow> bool" where
  "isUpper c = (let n = (of_char c :: nat) in 65 \<le> n \<and> n \<le> 90)"

definition isDigit :: "char \<Rightarrow> bool" where
  "isDigit c = (let n = (of_char c :: nat) in 48 \<le> n \<and> n \<le> 57)"

fun inCls :: "cls \<Rightarrow> char \<Rightarrow> bool" where
  "inCls Upper c = isUpper c"
| "inCls Digit c = isDigit c"

fun matches :: "atom list \<Rightarrow> string \<Rightarrow> string list" where
  "matches [] s = [Nil]"
| "matches (Lit c # as) [] = []"
| "matches (Lit c # as) (x # xs) = (if x = c then map ((#) x) (matches as xs) else [])"
| "matches (Plus k # as) [] = []"
| "matches (Plus k # as) (x # xs) =
     (if inCls k x then map ((#) x) (matches (Plus k # as) xs @ matches as xs) else [])"

fun firstOf :: "'a list \<Rightarrow> 'a option" where
  "firstOf [] = None"
| "firstOf (x # _) = Some x"

text \<open>Capture group 1 of \<^verbatim>\<open>/lead(grp)/\<close> anchored at the start of \<open>s\<close>, in backtracking order.\<close>

definition groupAt :: "regex \<Rightarrow> string \<Rightarrow> string list" where
  "groupAt r s = concat (map (\<lambda>l. matches (grp r) (drop (length l) s)) (matches (lead r) s))"

text \<open>\<^verbatim>\<open>text.match(pattern)\<close> without the \<^verbatim>\<open>g\<close> flag: the leftmost start position that
  matches wins; the result is \<^verbatim>\<open>match[1]\<close>, or \<open>None\<close> for \<^verbatim>\<open>null\<close>.\<close>

fun regexMatch :: "regex \<Rightarrow> string \<Rightarrow> string option" where
  "regexMatch r [] = firstOf (groupAt r [])"
| "regexMatch r (x # xs) =
     (case firstOf (groupAt r (x # xs)) of
        Some g \<Rightarrow> Some g
      | None \<Rightarrow> regexMatch r xs)"

definition keyAtoms :: "atom list" where
  "keyAtoms = [Plus Upper, Lit CHR ''-'', Plus Digit]"

definition patterns :: "regex list" where
  "patterns = [Regex [] keyAtoms, Regex (map Lit ''browse/'') keyAtoms]"

fun firstPattern :: "regex list \<Rightarrow> string \<Rightarrow> string option" where
  "firstPattern [] text = None"
| "firstPattern (p # ps) text =
     (case regexMatch p text of Some k \<Rightarrow> Some k | None \<Rightarrow> firstPattern ps text)"

definition extractTicketKey :: "string \<Rightarrow> string option" where
  "extractTicketKey text = firstPattern patterns text"

text \<open>The ticket pattern of the specification, \<^verbatim>\<open><LETTERS>-<DIGITS>\<close>: a non-empty run of
  upper-case letters, a dash, a non-empty run of digits, and nothing else.\<close>

definition isTicketKey :: "string \<Rightarrow> bool" where
  "isTicketKey k =
     (let ls = takeWhile isUpper k in
      ls \<noteq> [] \<and>
      (case dropWhile isUpper k of
         [] \<Rightarrow> False
       | c # ds \<Rightarrow> c = CHR ''-'' \<and> ds \<noteq> [] \<and> list_all isDigit ds))"

text \<open>Two auxiliary functions for the proofs: the longest ticket key that starts the string,
  and the scan for the leftmost position that has one.\<close>

definition keyAt :: "string \<Rightarrow> string option" where
  "keyAt s =
     (let ls = takeWhile isUpper s in
      if ls = [] then None
      else (case dropWhile isUpper s of
              [] \<Rightarrow> None
            | c # r \<Rightarrow> if c = CHR ''-'' \<and> takeWhile isDigit r \<noteq> []
                       then Some (ls @ CHR ''-'' # takeWhile isDigit r) else None))"

fun searchKey :: "string \<Rightarrow> string option" where
  "searchKey [] = None"
| "searchKey (x # xs) = (case keyAt (x # xs) of Some k \<Rightarrow> Some k | None \<Rightarrow> searchKey xs)"


section \<open>Data model (src/types/index.ts)\<close>

text \<open>
  The interfaces of the source as records. A field name that occurs in two interfaces is
  qualified in the second: \<open>commentCreated\<close>, \<open>stepDescription\<close>, \<open>imageStepNumber\<close>,
  \<open>imageOsType\<close>, \<open>draftTicket\<close>. An optional field is an \<open>option\<close>. The step's
  \<^verbatim>\<open>'mac' | 'windows' | 'both'\<close> is \<open>Only Mac\<close>, \<open>Only Windows\<close>, \<open>Both\<close>; an image's
  \<^verbatim>\<open>'mac' | 'windows'\<close> is \<open>os\<close>. Step numbers are integers, as the prompt asks the
  generative service to number the steps; a template literal prints all digits of an
  integer below \<^verbatim>\<open>1e21\<close> in absolute value, and \<open>showInt\<close> below is that rendering.
\<close>

record JiraComment =
  author :: string
  body :: string
  commentCreated :: string

record JiraTicket =
  key :: string
  summary :: string
  description :: string
  issueType :: string
  priority :: string
  status :: string
  assignee :: "string option"
  reporter :: "string option"
  created :: string
  updated :: string
  comments :: "JiraComment list option"
  resolution :: "string option"
  customFields :: "(string \<times> string) list option"

datatype os = Mac | Windows

datatype stepOs = Only os | Both

record KBAStep =
  stepNumber :: int
  stepDescription :: string
  imagePrompt :: "string option"
  osType :: "stepOs option"
  codeSnippet :: "string option"

record KBAContent =
  title :: string
  problem :: string
  solution :: string
  steps :: "KBAStep list"
  additionalNotes :: "string option"
  tags :: "string list"

record GeneratedImage =
  imageStepNumber :: int
  url :: string
  imageOsType :: os
  prompt :: string

record KBADraft =
  draftTicket :: JiraTicket
  content :: KBAContent
  images :: "GeneratedImage list"
  confluencePageId :: "string option"

datatype stage = Initial | Analyzing | AskingQuestions | Generating | Review | Complete

text \<open>\<open>userAnswers\<close> is a JavaScript object used as a dictionary; its keys keep insertion
  order, so it is an association list, and \<^verbatim>\<open>Object.keys(o).length\<close> is its length.\<close>

record ConversationContext =
  threadTs :: string
  channel :: string
  userId :: string
  jiraTicket :: "JiraTicket option"
  kbaDraft :: "KBADraft option"
  stage :: stage
  questionsAsked :: "string list"
  userAnswers :: "(string \<times> string) list"

section \<open>JavaScript primitives used by the code\<close>

datatype error = Error (message: string)

definition newline :: string where
  "newline = [CHR 0x0A]"

definition dquote :: string where
  "dquote = [CHR 0x22]"

text \<open>A string in a condition is true unless it is absent or empty.\<close>

fun truthy :: "string option \<Rightarrow> bool" where
  "truthy None = False"
| "truthy (Some t) = (t \<noteq> [])"

text \<open>Decimal rendering of a number inside a template literal.\<close>

definition digitChar :: "nat \<Rightarrow> char" where
  "digitChar d = char_of (48 + d)"

fun showNat :: "nat \<Rightarrow> string" where
  "showNat n = (if n < 10 then [digitChar n] else showNat (n div 10) @ [digitChar (n mod 10)])"

declare showNat.simps [simp del]

definition showInt :: "int \<Rightarrow> string" where
  "showInt i = (if i < 0 then CHR ''-'' # showNat (nat (- i)) else showNat (nat i))"



text \<open>\<^verbatim>\<open>xs.join(sep)\<close>.\<close>

fun join :: "string \<Rightarrow> string list \<Rightarrow> string" where
  "join sep [] = []"
| "join sep [x] = x"
| "join sep (x # y # ys) = x @ sep @ join sep (y # ys)"

text \<open>\<^verbatim>\<open>s.replace(/c/g, r)\<close> for a one-character pattern.\<close>

definition replaceAll :: "char \<Rightarrow> string \<Rightarrow> string \<Rightarrow> string" where
  "replaceAll c r t = concat (map (\<lambda>x. if x = c then r else [x]) t)"



section \<open>Collaborators, process environment and state\<close>

text \<open>
  The chat platform, the issue tracker, the generative service and the wiki are outside the
  repository. One value of \<open>env\<close> holds what they answer during one workflow operation, and
  the environment variables the code reads. \<open>imagesGenerate\<close> is asked with the number of
  render requests already issued in the pass, so that any subset of the requests can fail.
  \<open>generateClarifyingQuestions\<close> and \<open>generateKBAContent\<close> stand for the two methods of
  \<^verbatim>\<open>OpenAIService\<close> of these names (a prompt, one completion call, \<^verbatim>\<open>JSON.parse\<close>).
  \<open>jiraGet\<close> stands for the issue request of \<^verbatim>\<open>getTicket\<close> together with the comment request
  (which never throws) and the assembly of the ticket record; its failure carries the HTTP
  status, if any, and the message. \<open>filesUploadV2\<close> and \<open>attachmentPost\<close> tell whether the
  request succeeds. \<open>chatPostMessage\<close> is \<^verbatim>\<open>app.client.chat.postMessage\<close>: for a message it
  is \<open>None\<close> when the chat platform accepts it and the error when the call rejects. No
  operation posts the same message twice (the texts differ in how they begin), so a
  function of the message lets any subset of the posts of an operation be rejected.
\<close>

text \<open>What the bot posts to the chat platform: a text message (channel, thread, text),
  a file preview (channel, thread, file, title, comment), and the message that carries the
  three buttons (channel, thread, the context key the buttons hold).\<close>

datatype outbound =
    ChatPost string string string
  | FileUpload string string string string string
  | ApprovalRequest string string string

record page =
  pageTitle :: string
  pageSpace :: string
  pageBody :: string
  pageLabels :: "string list"
  pageAncestors :: "string list"

datatype httpError = HttpError (httpStatus: "nat option") (httpMessage: string)

record env =
  JIRA_HOST :: string
  CONFLUENCE_HOST :: string
  spaceKey :: string
  parentPageId :: string
  jiraGet :: "string \<Rightarrow> httpError + JiraTicket"
  generateClarifyingQuestions :: "JiraTicket \<Rightarrow> error + string list"
  generateKBAContent :: "JiraTicket \<Rightarrow> (string \<times> string) list \<Rightarrow> error + KBAContent"
  imagesGenerate :: "nat \<Rightarrow> string \<Rightarrow> error + string option"
  filesUploadV2 :: "GeneratedImage \<Rightarrow> bool"
  confluencePost :: "page \<Rightarrow> error + string"
  axiosGet :: "string \<Rightarrow> error + string"
  attachmentPost :: "string \<Rightarrow> string \<Rightarrow> bool"
  chatPostMessage :: "outbound \<Rightarrow> error option"

text \<open>The requests sent to the other collaborators, and the pacing delay, in the order
  they are issued.\<close>

datatype call =
    FetchIssue string
  | AskQuestions JiraTicket
  | GenerateContent JiraTicket "(string \<times> string) list"
  | ImagesGenerate string
  | Sleep nat
  | CreatePage page
  | Download string
  | UploadAttachment string string

text \<open>The workflow object: the \<^verbatim>\<open>contexts\<close> map, and around it the posts that the chat
  platform has accepted, the requests that have been issued, the cleanup timers that are
  pending, and the attachments the wiki has stored (page id, file name).\<close>

record wstate =
  contexts :: "string \<rightharpoonup> ConversationContext"
  outbox :: "outbound list"
  calls :: "call list"
  timers :: "string list"
  attachments :: "(string \<times> string) list"

definition initialState :: wstate where
  "initialState = \<lparr>contexts = Map.empty, outbox = [], calls = [], timers = [], attachments = []\<rparr>"

definition putContext :: "string \<Rightarrow> ConversationContext \<Rightarrow> wstate \<Rightarrow> wstate" where
  "putContext k c s = s\<lparr>contexts := (contexts s)(k \<mapsto> c)\<rparr>"

definition deleteContext :: "string \<Rightarrow> wstate \<Rightarrow> wstate" where
  "deleteContext k s = s\<lparr>contexts := (contexts s)(k := None)\<rparr>"

definition logCall :: "call \<Rightarrow> wstate \<Rightarrow> wstate" where
  "logCall c s = s\<lparr>calls := calls s @ [c]\<rparr>"

definition post :: "outbound \<Rightarrow> wstate \<Rightarrow> wstate" where
  "post m s = s\<lparr>outbox := outbox s @ [m]\<rparr>"

section \<open>Issue tracker client (src/services/jira.service.ts)\<close>

definition getTicket :: "env \<Rightarrow> string \<Rightarrow> error + JiraTicket" where
  "getTicket e ticketKey =
     (case jiraGet e ticketKey of
        Inr ticket \<Rightarrow> Inr ticket
      | Inl h \<Rightarrow>
          if httpStatus h = Some 404
          then Inl (Error (''Jira ticket '' @ ticketKey @ '' not found''))
          else Inl (Error (''Failed to fetch Jira ticket: '' @ httpMessage h)))"

section \<open>Image generation (src/services/openai.service.ts)\<close>

fun osName :: "os \<Rightarrow> string" where
  "osName Mac = ''mac''"
| "osName Windows = ''windows''"

fun osStyles :: "os \<Rightarrow> string" where
  "osStyles Mac = ''macOS style interface with rounded corners, San Francisco font, light gray header with red/yellow/green traffic light buttons on the left, clean modern aesthetic''"
| "osStyles Windows = ''Windows 11 style interface with rounded corners, Segoe UI font, white title bar with minimize/maximize/close buttons on the right, modern Fluent Design aesthetic''"

definition enhanceImagePrompt :: "string \<Rightarrow> os \<Rightarrow> string" where
  "enhanceImagePrompt basePrompt osT =
     basePrompt @ newline @ newline @ ''Style: '' @ osStyles osT @
     ''. Photorealistic computer interface mockup, high quality, clean and professional appearance. No text unless absolutely necessary for UI clarity.''"

fun osTypes :: "stepOs \<Rightarrow> os list" where
  "osTypes Both = [Mac, Windows]"
| "osTypes (Only osT) = [osT]"

fun isRender :: "call \<Rightarrow> bool" where
  "isRender (ImagesGenerate _) = True"
| "isRender _ = False"

text \<open>
  The inner loop of \<^verbatim>\<open>generateImages\<close> over the platforms of one step. It runs inside the
  \<^verbatim>\<open>try\<close> of that step: the first component of the result tells whether a request threw,
  which leaves the loop. An image is pushed only when the response carries a url.
\<close>

fun renderEach ::
  "env \<Rightarrow> KBAStep \<Rightarrow> string \<Rightarrow> os list \<Rightarrow> GeneratedImage list \<times> call list
     \<Rightarrow> bool \<times> GeneratedImage list \<times> call list" where
  "renderEach e step p [] acc = (False, acc)"
| "renderEach e step p (osT # rest) (imgs, tr) =
     (let enhancedPrompt = enhanceImagePrompt p osT in
      case imagesGenerate e (length (filter isRender tr)) enhancedPrompt of
        Inl err \<Rightarrow> (True, imgs, tr @ [ImagesGenerate enhancedPrompt])
      | Inr u \<Rightarrow>
          renderEach e step p rest
            (if truthy u
             then imgs @ [\<lparr>imageStepNumber = stepNumber step, url = (case u of Some x \<Rightarrow> x | None \<Rightarrow> []),
                           imageOsType = osT, prompt = enhancedPrompt\<rparr>]
             else imgs,
             tr @ [ImagesGenerate enhancedPrompt]))"

text \<open>The outer loop over the steps. The delay of 1000 ms is the last statement of the
  \<^verbatim>\<open>try\<close> block, after the inner loop; the \<^verbatim>\<open>catch\<close> only logs.\<close>

fun generateImagesFrom ::
  "env \<Rightarrow> KBAStep list \<Rightarrow> GeneratedImage list \<times> call list \<Rightarrow> GeneratedImage list \<times> call list" where
  "generateImagesFrom e [] acc = acc"
| "generateImagesFrom e (step # rest) acc =
     (if truthy (imagePrompt step) \<and> osType step \<noteq> None then
        (case renderEach e step (case imagePrompt step of Some p \<Rightarrow> p | None \<Rightarrow> [])
                (case osType step of Some t \<Rightarrow> osTypes t | None \<Rightarrow> []) acc of
           (True, acc') \<Rightarrow> generateImagesFrom e rest acc'
         | (False, imgs, tr) \<Rightarrow> generateImagesFrom e rest (imgs, tr @ [Sleep 1000]))
      else generateImagesFrom e rest acc)"

definition generateImages :: "env \<Rightarrow> KBAContent \<Rightarrow> GeneratedImage list \<times> call list" where
  "generateImages e cnt = generateImagesFrom e (steps cnt) ([], [])"


section \<open>Wiki client (confluence.service.ts)\<close>

definition escapeHTML :: "string \<Rightarrow> string" where
  "escapeHTML t =
     replaceAll (CHR 0x0A) ''<br/>''
       (replaceAll (CHR 0x27) ''&#39;''
         (replaceAll (CHR 0x22) ''&quot;''
           (replaceAll CHR ''>'' ''&gt;''
             (replaceAll CHR ''<'' ''&lt;''
               (replaceAll CHR ''&'' ''&amp;'' t)))))"

text \<open>The file name that the page body gives to the image of a step.\<close>

definition attachmentRef :: "KBAStep \<Rightarrow> GeneratedImage \<Rightarrow> string" where
  "attachmentRef step img =
     ''step-'' @ showInt (stepNumber step) @ ''-'' @ osName (imageOsType img) @ ''.png''"

definition imageMarkup :: "KBAStep \<Rightarrow> GeneratedImage \<Rightarrow> string" where
  "imageMarkup step img =
     ''<p><strong>'' @ (if imageOsType img = Mac then ''macOS'' else ''Windows'') @
     '':</strong></p>'' @ newline @
     ''<p><ac:image><ri:attachment ri:filename='' @ dquote @ attachmentRef step img @ dquote @
     '' /></ac:image></p>'' @ newline"

definition stepHead :: "KBAStep \<Rightarrow> string" where
  "stepHead step =
     ''<h3>Step '' @ showInt (stepNumber step) @ ''</h3>'' @ newline @
     ''<p>'' @ escapeHTML (stepDescription step) @ ''</p>'' @ newline @
     (case codeSnippet step of
        None \<Rightarrow> []
      | Some code \<Rightarrow>
          if code = [] then []
          else ''<ac:structured-macro ac:name='' @ dquote @ ''code'' @ dquote @ ''>'' @
               ''<ac:plain-text-body><![CDATA['' @ code @ '']]></ac:plain-text-body>'' @
               ''</ac:structured-macro>'' @ newline)"

definition stepHTML :: "KBAStep \<Rightarrow> GeneratedImage list \<Rightarrow> string" where
  "stepHTML step imgs =
     stepHead step @
     concat (map (imageMarkup step)
               (filter (\<lambda>img. imageStepNumber img = stepNumber step) imgs))"

text \<open>The page body: what precedes the steps (ticket reference, problem, solution, heading
  of the steps), the steps in order, and what follows them (notes, tags).\<close>

definition htmlHead :: "env \<Rightarrow> KBAContent \<Rightarrow> string \<Rightarrow> string" where
  "htmlHead e cnt jiraKey =
     ''<p><strong>Related Jira Ticket:</strong> <a href='' @ dquote @ JIRA_HOST e @ ''/browse/'' @
       jiraKey @ dquote @ ''>'' @ jiraKey @ ''</a></p>'' @ newline @
     ''<h2>Problem</h2>'' @ newline @ ''<p>'' @ escapeHTML (problem cnt) @ ''</p>'' @ newline @
     ''<h2>Solution</h2>'' @ newline @ ''<p>'' @ escapeHTML (solution cnt) @ ''</p>'' @ newline @
     ''<h2>Step-by-Step Instructions</h2>'' @ newline"

definition htmlTail :: "KBAContent \<Rightarrow> string" where
  "htmlTail cnt =
     (if truthy (additionalNotes cnt)
      then ''<h2>Additional Notes</h2>'' @ newline @ ''<p>'' @
           escapeHTML (case additionalNotes cnt of Some n \<Rightarrow> n | None \<Rightarrow> []) @ ''</p>'' @ newline
      else []) @
     ''<p><strong>Tags:</strong> '' @ join '', '' (tags cnt) @ ''</p>'' @ newline"

definition generateConfluenceHTML ::
  "env \<Rightarrow> KBAContent \<Rightarrow> GeneratedImage list \<Rightarrow> string \<Rightarrow> string" where
  "generateConfluenceHTML e cnt imgs jiraKey =
     htmlHead e cnt jiraKey @
     concat (map (\<lambda>step. stepHTML step imgs) (steps cnt)) @
     htmlTail cnt"

text \<open>The file name under which the image is uploaded.\<close>

definition uploadFilename :: "GeneratedImage \<Rightarrow> string" where
  "uploadFilename img =
     ''step-'' @ showInt (imageStepNumber img) @ ''-'' @ osName (imageOsType img) @ ''.png''"

text \<open>Each image is downloaded and uploaded inside its own \<^verbatim>\<open>try\<close>; a failure of either
  request is logged and the loop goes on.\<close>

fun uploadImages :: "env \<Rightarrow> string \<Rightarrow> GeneratedImage list \<Rightarrow> wstate \<Rightarrow> wstate" where
  "uploadImages e pageId [] s = s"
| "uploadImages e pageId (img # rest) s =
     (let s1 = logCall (Download (url img)) s in
      case axiosGet e (url img) of
        Inl err \<Rightarrow> uploadImages e pageId rest s1
      | Inr imageBuffer \<Rightarrow>
          (let filename = uploadFilename img;
               s2 = logCall (UploadAttachment pageId filename) s1
           in if attachmentPost e pageId filename
              then uploadImages e pageId rest
                     (s2\<lparr>attachments := attachments s2 @ [(pageId, filename)]\<rparr>)
              else uploadImages e pageId rest s2))"

definition kbaPage :: "env \<Rightarrow> KBAContent \<Rightarrow> GeneratedImage list \<Rightarrow> string \<Rightarrow> page" where
  "kbaPage e cnt imgs jiraKey =
     \<lparr>pageTitle = title cnt, pageSpace = spaceKey e,
      pageBody = generateConfluenceHTML e cnt imgs jiraKey,
      pageLabels = tags cnt,
      pageAncestors = (if parentPageId e = [] then [] else [parentPageId e])\<rparr>"

definition createKBAPage ::
  "env \<Rightarrow> KBAContent \<Rightarrow> GeneratedImage list \<Rightarrow> string \<Rightarrow> wstate \<Rightarrow> (error + string) \<times> wstate" where
  "createKBAPage e cnt imgs jiraKey s =
     (let pg = kbaPage e cnt imgs jiraKey;
          s1 = logCall (CreatePage pg) s
      in case confluencePost e pg of
           Inl err \<Rightarrow> (Inl (Error (''Failed to create Confluence page: '' @ message err)), s1)
         | Inr pageId \<Rightarrow>
             (Inr (CONFLUENCE_HOST e @ ''/wiki/spaces/'' @ spaceKey e @ ''/pages/'' @ pageId),
              uploadImages e pageId imgs s1))"


section \<open>The conversation workflow (src/workflows/kba-generator.ts)\<close>

text \<open>
  Every method of \<^verbatim>\<open>KBAGeneratorWorkflow\<close> is asynchronous: its promise resolves, or it
  rejects with an error that was thrown and not caught. A call is modelled to its end, as a
  function from the state before it to the outcome: \<open>None\<close> when the promise resolves or
  the error it rejects with, and the state that the call leaves. A context object is shared
  between the local variable and the map, so an assignment to one of its fields is an update
  of the map entry. A post to the chat platform can reject like any other request; a post
  that is accepted is appended to \<open>outbox\<close>.
\<close>

type_synonym outcome = "error option \<times> wstate"

text \<open>Sequencing of awaited calls: the rest runs when the call did not throw. And
  \<^verbatim>\<open>try ... catch (error)\<close>: the handler runs on the state that the throwing block left.\<close>

definition andThen :: "outcome \<Rightarrow> (wstate \<Rightarrow> outcome) \<Rightarrow> outcome" where
  "andThen r f = (case r of (None, s) \<Rightarrow> f s | (Some err, s) \<Rightarrow> (Some err, s))"

definition tryCatch :: "outcome \<Rightarrow> (error \<Rightarrow> wstate \<Rightarrow> outcome) \<Rightarrow> outcome" where
  "tryCatch r h = (case r of (None, s) \<Rightarrow> (None, s) | (Some err, s) \<Rightarrow> h err s)"

definition contextKey :: "string \<Rightarrow> string \<Rightarrow> string" where
  "contextKey ch ts = ch @ ''-'' @ ts"

text \<open>\<^verbatim>\<open>await this.app.client.chat.postMessage(...)\<close>.\<close>

definition chatPost :: "env \<Rightarrow> outbound \<Rightarrow> wstate \<Rightarrow> outcome" where
  "chatPost e m s =
     (case chatPostMessage e m of
        None \<Rightarrow> (None, post m s)
      | Some err \<Rightarrow> (Some err, s))"

definition sendMessage :: "env \<Rightarrow> string \<Rightarrow> string \<Rightarrow> string \<Rightarrow> wstate \<Rightarrow> outcome" where
  "sendMessage e ch ts text s = chatPost e (ChatPost ch ts text) s"

subsection \<open>showPreview\<close>

definition stepPreview :: "KBAStep \<Rightarrow> string" where
  "stepPreview step =
     showInt (stepNumber step) @ ''. '' @ stepDescription step @ newline @
     (if truthy (codeSnippet step)
      then ''```'' @ newline @ (case codeSnippet step of Some c \<Rightarrow> c | None \<Rightarrow> []) @ newline @
           ''```'' @ newline
      else [])"

definition previewText :: "KBAContent \<Rightarrow> GeneratedImage list \<Rightarrow> string" where
  "previewText cnt imgs =
     '':page_facing_up: *KBA Preview*'' @ newline @ newline @
     ''*Title:* '' @ title cnt @ newline @ newline @
     ''*Problem:*'' @ newline @ problem cnt @ newline @ newline @
     ''*Solution:*'' @ newline @ solution cnt @ newline @ newline @
     ''*Steps:*'' @ newline @
     concat (map stepPreview (steps cnt)) @
     (if truthy (additionalNotes cnt)
      then newline @ ''*Additional Notes:*'' @ newline @
           (case additionalNotes cnt of Some n \<Rightarrow> n | None \<Rightarrow> []) @ newline
      else []) @
     newline @ ''*Tags:* '' @ join '', '' (tags cnt) @ newline @
     newline @ ''*Generated Images:* '' @ showNat (length imgs) @ '' screenshot mockup(s)'' @ newline"

definition previewUpload :: "string \<Rightarrow> string \<Rightarrow> GeneratedImage \<Rightarrow> outbound" where
  "previewUpload ch ts img =
     FileUpload ch ts (url img)
       (''Step '' @ showInt (imageStepNumber img) @ '' - '' @
          (if imageOsType img = Mac then ''macOS'' else ''Windows''))
       (''Screenshot mockup for Step '' @ showInt (imageStepNumber img) @ '' ('' @
          osName (imageOsType img) @ '')'')"

text \<open>A preview upload that fails is caught and logged, one image at a time.\<close>

fun uploadPreviews :: "env \<Rightarrow> string \<Rightarrow> string \<Rightarrow> GeneratedImage list \<Rightarrow> wstate \<Rightarrow> wstate" where
  "uploadPreviews e ch ts [] s = s"
| "uploadPreviews e ch ts (img # rest) s =
     uploadPreviews e ch ts rest
       (if filesUploadV2 e img then post (previewUpload ch ts img) s else s)"

definition showPreview :: "env \<Rightarrow> string \<Rightarrow> wstate \<Rightarrow> outcome" where
  "showPreview e k s =
     (case contexts s k of
        None \<Rightarrow> (None, s)
      | Some context \<Rightarrow>
          (case kbaDraft context of
             None \<Rightarrow> (None, s)
           | Some draft \<Rightarrow>
               (let ch = channel context; ts = threadTs context in
                andThen (sendMessage e ch ts (previewText (content draft) (images draft)) s)
                  (\<lambda>s1. chatPost e (ApprovalRequest ch ts k)
                           (uploadPreviews e ch ts (images draft) s1)))))"

subsection \<open>generateKBA\<close>

text \<open>The \<^verbatim>\<open>catch\<close> block awaits the error post and then deletes the context: when the post
  rejects, the method rejects and the context stays.\<close>

definition generateKBA_catch ::
  "env \<Rightarrow> string \<Rightarrow> ConversationContext \<Rightarrow> error \<Rightarrow> wstate \<Rightarrow> outcome" where
  "generateKBA_catch e k context err s =
     andThen (sendMessage e (channel context) (threadTs context)
                ('':x: Error generating KBA: '' @ message err) s)
       (\<lambda>s1. (None, deleteContext k s1))"

definition generateKBA_try :: "env \<Rightarrow> string \<Rightarrow> ConversationContext \<Rightarrow> JiraTicket \<Rightarrow> wstate \<Rightarrow> outcome" where
  "generateKBA_try e k c1 ticket s1 =
     andThen (sendMessage e (channel c1) (threadTs c1) '':pencil: Generating KBA content...'' s1)
       (\<lambda>s2.
          (let s3 = logCall (GenerateContent ticket (userAnswers c1)) s2
           in case generateKBAContent e ticket (userAnswers c1) of
                Inl err \<Rightarrow> (Some err, s3)
              | Inr cnt \<Rightarrow>
                  (let stepsWithImages = filter (\<lambda>st. truthy (imagePrompt st)) (steps cnt)
                   in andThen
                        (if length stepsWithImages > 0
                         then sendMessage e (channel c1) (threadTs c1)
                                ('':art: Generating '' @ showNat (length stepsWithImages) @
                                 '' screenshot mockup(s)... This may take a minute.'') s3
                         else (None, s3))
                        (\<lambda>s4.
                           (let generated = (if length stepsWithImages > 0
                                             then generateImages e cnt else ([], []));
                                s5 = s4\<lparr>calls := calls s4 @ snd generated\<rparr>;
                                c2 = c1\<lparr>kbaDraft := Some \<lparr>draftTicket = ticket, content = cnt,
                                                           images = fst generated,
                                                           confluencePageId = None\<rparr>,
                                        stage := Review\<rparr>;
                                s6 = putContext k c2 s5
                            in showPreview e k s6)))))"

definition generateKBA_call :: "env \<Rightarrow> string \<Rightarrow> wstate \<Rightarrow> outcome" where
  "generateKBA_call e k s =
     (case contexts s k of
        None \<Rightarrow> (None, s)
      | Some context \<Rightarrow>
          (case jiraTicket context of
             None \<Rightarrow> (None, s)
           | Some ticket \<Rightarrow>
               (let c1 = context\<lparr>stage := Generating\<rparr>;
                    s1 = putContext k c1 s
                in tryCatch (generateKBA_try e k c1 ticket s1) (generateKBA_catch e k c1))))"

subsection \<open>startWorkflow\<close>

definition foundTicketText :: "JiraTicket \<Rightarrow> string" where
  "foundTicketText ticket =
     '':white_check_mark: Found ticket: *'' @ key ticket @ '' - '' @ summary ticket @ ''*'' @
       newline @ newline @
     ''Status: '' @ status ticket @ newline @
     ''Priority: '' @ priority ticket @ newline @ newline @
     '':brain: Analyzing ticket to determine what additional information is needed...''"

definition questionsText :: "string list \<Rightarrow> string" where
  "questionsText questions =
     '':question: I need some additional information to create a comprehensive KBA:'' @
       newline @ newline @
     join newline (map (\<lambda>(i, q). showNat (i + 1) @ ''. '' @ q) (enumerate 0 questions)) @
       newline @ newline @
     ''Please answer these questions (you can answer them in one message or separately).''"

definition startWorkflow_catch :: "env \<Rightarrow> string \<Rightarrow> string \<Rightarrow> error \<Rightarrow> wstate \<Rightarrow> outcome" where
  "startWorkflow_catch e ch ts err s =
     andThen (sendMessage e ch ts ('':x: Error: '' @ message err) s)
       (\<lambda>s1. (None, deleteContext (contextKey ch ts) s1))"

definition startWorkflow_try ::
  "env \<Rightarrow> string \<Rightarrow> string \<Rightarrow> string \<Rightarrow> string \<Rightarrow> wstate \<Rightarrow> outcome" where
  "startWorkflow_try e ch ts uid jiraUrl s =
     (let k = contextKey ch ts in
      andThen (sendMessage e ch ts '':mag: Analyzing Jira ticket...'' s)
        (\<lambda>s1.
           if \<not> truthy (extractTicketKey jiraUrl)
           then sendMessage e ch ts
                  '':x: Could not extract Jira ticket key from the URL. Please provide a valid Jira ticket URL.'' s1
           else
             (let ticketKey = (case extractTicketKey jiraUrl of Some t \<Rightarrow> t | None \<Rightarrow> []);
                  s2 = logCall (FetchIssue ticketKey) s1
              in case getTicket e ticketKey of
                   Inl err \<Rightarrow> (Some err, s2)
                 | Inr ticket \<Rightarrow>
                     (let context = \<lparr>threadTs = ts, channel = ch, userId = uid,
                                     jiraTicket = Some ticket, kbaDraft = None, stage = Analyzing,
                                     questionsAsked = [], userAnswers = []\<rparr>;
                          s3 = putContext k context s2
                      in andThen (sendMessage e ch ts (foundTicketText ticket) s3)
                           (\<lambda>s4.
                              (let s5 = logCall (AskQuestions ticket) s4
                               in case generateClarifyingQuestions e ticket of
                                    Inl err \<Rightarrow> (Some err, s5)
                                  | Inr questions \<Rightarrow>
                                      (let c1 = context\<lparr>questionsAsked := questions,
                                                       stage := AskingQuestions\<rparr>;
                                           s6 = putContext k c1 s5
                                       in if length questions = 0
                                          then generateKBA_call e k s6
                                          else sendMessage e ch ts (questionsText questions) s6)))))))"

definition startWorkflow_call ::
  "env \<Rightarrow> string \<Rightarrow> string \<Rightarrow> string \<Rightarrow> string \<Rightarrow> wstate \<Rightarrow> outcome" where
  "startWorkflow_call e ch ts uid jiraUrl s =
     tryCatch (startWorkflow_try e ch ts uid jiraUrl s) (startWorkflow_catch e ch ts)"

subsection \<open>handleAnswer\<close>


subsection \<open>approveAndPublish, requestChanges, cancelKBA\<close>

text \<open>\<^verbatim>\<open>jiraTicket!.key\<close> is evaluated as an argument of the publish call, inside the
  \<^verbatim>\<open>try\<close>: without a ticket it throws before the call is made. The timer set on success
  is recorded in \<open>timers\<close> and fires as \<open>cleanupTimer\<close>.\<close>

definition approveAndPublish_try ::
  "env \<Rightarrow> string \<Rightarrow> ConversationContext \<Rightarrow> KBADraft \<Rightarrow> wstate \<Rightarrow> outcome" where
  "approveAndPublish_try e k context draft s =
     (let ch = channel context; ts = threadTs context in
      andThen (sendMessage e ch ts '':rocket: Publishing KBA to Confluence...'' s)
        (\<lambda>s1.
           case (case jiraTicket context of
                   None \<Rightarrow>
                     (Inl (Error ''Cannot read properties of undefined (reading 'key')''), s1)
                 | Some ticket \<Rightarrow>
                     createKBAPage e (content draft) (images draft) (key ticket) s1) of
             (Inl err, s2) \<Rightarrow> (Some err, s2)
           | (Inr pageUrl, s2) \<Rightarrow>
               (let s3 = putContext k (context\<lparr>stage := Complete\<rparr>) s2
                in andThen
                     (sendMessage e ch ts
                        ('':white_check_mark: *KBA successfully published!*'' @
                           newline @ newline @
                         ''View it here: '' @ pageUrl @ newline @ newline @
                         ''Jira Ticket: '' @ JIRA_HOST e @ ''/browse/'' @
                           (case jiraTicket context of Some t \<Rightarrow> key t | None \<Rightarrow> [])) s3)
                     (\<lambda>s4. (None, s4\<lparr>timers := timers s4 @ [k]\<rparr>)))))"

definition approveAndPublish_call :: "env \<Rightarrow> string \<Rightarrow> string \<Rightarrow> wstate \<Rightarrow> outcome" where
  "approveAndPublish_call e k uid s =
     (case contexts s k of
        None \<Rightarrow> (None, s)
      | Some context \<Rightarrow>
          (case kbaDraft context of
             None \<Rightarrow> (None, s)
           | Some draft \<Rightarrow>
               tryCatch (approveAndPublish_try e k context draft s)
                 (\<lambda>err s'.
                    sendMessage e (channel context) (threadTs context)
                      ('':x: Error publishing to Confluence: '' @ message err) s')))"


definition requestChanges_call :: "env \<Rightarrow> string \<Rightarrow> wstate \<Rightarrow> outcome" where
  "requestChanges_call e k s =
     (case contexts s k of
        None \<Rightarrow> (None, s)
      | Some context \<Rightarrow>
          andThen (sendMessage e (channel context) (threadTs context)
                     '':pencil: Please describe what changes you'd like me to make to the KBA.'' s)
            (\<lambda>s1. (None, putContext k (context\<lparr>stage := AskingQuestions\<rparr>) s1)))"

definition cancelKBA_call :: "env \<Rightarrow> string \<Rightarrow> wstate \<Rightarrow> outcome" where
  "cancelKBA_call e k s =
     (case contexts s k of
        None \<Rightarrow> (None, s)
      | Some context \<Rightarrow>
          andThen (sendMessage e (channel context) (threadTs context)
                     '':x: KBA generation cancelled.'' s)
            (\<lambda>s1. (None, deleteContext k s1)))"

definition getContext :: "wstate \<Rightarrow> string \<Rightarrow> ConversationContext option" where
  "getContext s k = contexts s k"

subsection \<open>The state that a call leaves\<close>

text \<open>The handlers in \<^verbatim>\<open>index.ts\<close> await the methods outside any \<^verbatim>\<open>try\<close>: what remains
  of a call, resolved or rejected, is the state it leaves.\<close>

definition generateKBA :: "env \<Rightarrow> string \<Rightarrow> wstate \<Rightarrow> wstate" where
  "generateKBA e k s = snd (generateKBA_call e k s)"

definition startWorkflow ::
  "env \<Rightarrow> string \<Rightarrow> string \<Rightarrow> string \<Rightarrow> string \<Rightarrow> wstate \<Rightarrow> wstate" where
  "startWorkflow e ch ts uid jiraUrl s = snd (startWorkflow_call e ch ts uid jiraUrl s)"


definition approveAndPublish :: "env \<Rightarrow> string \<Rightarrow> string \<Rightarrow> wstate \<Rightarrow> wstate" where
  "approveAndPublish e k uid s = snd (approveAndPublish_call e k uid s)"

definition requestChanges :: "env \<Rightarrow> string \<Rightarrow> wstate \<Rightarrow> wstate" where
  "requestChanges e k s = snd (requestChanges_call e k s)"

definition cancelKBA :: "env \<Rightarrow> string \<Rightarrow> wstate \<Rightarrow> wstate" where
  "cancelKBA e k s = snd (cancelKBA_call e k s)"

text \<open>The chat platform accepts every post of the operation.\<close>

definition acceptsPosts :: "env \<Rightarrow> bool" where
  "acceptsPosts e = (\<forall>m. chatPostMessage e m = None)"

section \<open>Runs of the workflow\<close>







section \<open>Observations used in the statements\<close>

fun isGenerateContent :: "call \<Rightarrow> bool" where
  "isGenerateContent (GenerateContent _ _) = True"
| "isGenerateContent _ = False"

text \<open>How often the content-generation step has been started.\<close>

definition generations :: "wstate \<Rightarrow> nat" where
  "generations s = length (filter isGenerateContent (calls s))"

fun isPublishing :: "call \<Rightarrow> bool" where
  "isPublishing (CreatePage _) = True"
| "isPublishing (Download _) = True"
| "isPublishing (UploadAttachment _ _) = True"
| "isPublishing _ = False"

definition newCalls :: "wstate \<Rightarrow> wstate \<Rightarrow> call list" where
  "newCalls s s' = drop (length (calls s)) (calls s')"

definition newPosts :: "wstate \<Rightarrow> wstate \<Rightarrow> outbound list" where
  "newPosts s s' = drop (length (outbox s)) (outbox s')"

definition stageAt :: "wstate \<Rightarrow> string \<Rightarrow> stage option" where
  "stageAt s k = map_option stage (contexts s k)"



text \<open>The images of the draft of a thread, when it has a context with a draft.\<close>

definition draftImagesAt :: "wstate \<Rightarrow> string \<Rightarrow> GeneratedImage list option" where
  "draftImagesAt s k =
     (case contexts s k of None \<Rightarrow> None | Some c \<Rightarrow> map_option images (kbaDraft c))"

text \<open>The message that lists the questions and asks for answers, and the message that
  counts the answers still awaited, recognised by how their texts begin.\<close>

fun isWaitingMessage :: "outbound \<Rightarrow> bool" where
  "isWaitingMessage (ChatPost ch ts text) =
     (take 10 text = '':question:'' \<or> take 25 text = '':white_check_mark: Got it'')"
| "isWaitingMessage _ = False"

text \<open>Pacing as the specification words it: a delay between any two consecutive render
  requests.\<close>

fun paced :: "call list \<Rightarrow> bool" where
  "paced (ImagesGenerate a # ImagesGenerate b # rest) = False"
| "paced (c # rest) = paced rest"
| "paced [] = True"

text \<open>The keys that \<^verbatim>\<open>handleAnswer\<close> gives to the first \<open>n\<close> answers of a conversation.\<close>

definition answerKeys :: "nat \<Rightarrow> string list" where
  "answerKeys n = map (\<lambda>i. ''answer_'' @ showNat i) [1..<Suc n]"

definition wellKeyed :: "(string \<times> string) list \<Rightarrow> bool" where
  "wellKeyed kvs = (map fst kvs = answerKeys (length kvs))"



text \<open>What a call has posted between two states is quiet when none of it lists questions
  or counts awaited answers.\<close>

definition quiet :: "wstate \<Rightarrow> wstate \<Rightarrow> bool" where
  "quiet s s' = (\<exists>ms. outbox s' = outbox s @ ms \<and> list_all (\<lambda>m. \<not> isWaitingMessage m) ms)"

text \<open>What holds of every stored context whether or not posts are accepted: it has its
  ticket, its answers are keyed as \<^verbatim>\<open>handleAnswer\<close> keys them, and a draft is only there
  when the answers are at least as many as the questions.\<close>

definition ctxSound :: "ConversationContext \<Rightarrow> bool" where
  "ctxSound c =
     (jiraTicket c \<noteq> None \<and> wellKeyed (userAnswers c) \<and>
      (kbaDraft c = None \<or> length (questionsAsked c) \<le> length (userAnswers c)))"

definition stateSound :: "wstate \<Rightarrow> bool" where
  "stateSound s = (\<forall>k c. contexts s k = Some c \<longrightarrow> ctxSound c)"


section \<open>Concrete inputs\<close>

definition demoTicket :: JiraTicket where
  "demoTicket =
     \<lparr>key = ''TECH-456'', summary = ''VPN drops'', description = ''The VPN client disconnects.'',
      issueType = ''Bug'', priority = ''High'', status = ''Done'', assignee = None,
      reporter = Some ''Ana'', created = ''2024-01-01'', updated = ''2024-01-02'',
      comments = Some [], resolution = Some ''Fixed'', customFields = None\<rparr>"

definition demoStep1 :: KBAStep where
  "demoStep1 =
     \<lparr>stepNumber = 1, stepDescription = ''Open the network settings'',
      imagePrompt = Some ''Network settings window'', osType = Some Both, codeSnippet = None\<rparr>"

definition demoStep2 :: KBAStep where
  "demoStep2 =
     \<lparr>stepNumber = 2, stepDescription = ''Restart the VPN client'',
      imagePrompt = None, osType = None, codeSnippet = Some ''vpn restart''\<rparr>"

definition demoContent :: KBAContent where
  "demoContent =
     \<lparr>title = ''How to fix VPN drops'', problem = ''The VPN drops.'', solution = ''Restart it.'',
      steps = [demoStep1, demoStep2], additionalNotes = None, tags = [''vpn'', ''network'']\<rparr>"

definition plainContent :: KBAContent where
  "plainContent = demoContent\<lparr>steps := [demoStep2]\<rparr>"

text \<open>Collaborators that all succeed: one question, the content with two steps, a url for
  every render request.\<close>

definition demoEnv :: env where
  "demoEnv =
     \<lparr>JIRA_HOST = ''https://host'', CONFLUENCE_HOST = ''https://wiki'', spaceKey = ''ORCAS'',
      parentPageId = [],
      jiraGet = (\<lambda>k. Inr demoTicket),
      generateClarifyingQuestions = (\<lambda>t. Inr [''Which OS is affected?'']),
      generateKBAContent = (\<lambda>t a. Inr plainContent),
      imagesGenerate = (\<lambda>n p. Inr (Some (''https://img/'' @ showNat n))),
      filesUploadV2 = (\<lambda>i. True),
      confluencePost = (\<lambda>p. Inr ''9001''),
      axiosGet = (\<lambda>u. Inr ''PNG''),
      attachmentPost = (\<lambda>pid f. True),
      chatPostMessage = (\<lambda>m. None)\<rparr>"

definition failure :: error where
  "failure = Error ''request failed''"

text \<open>A context as \<^verbatim>\<open>startWorkflow\<close> leaves it with two questions, and one in review.\<close>

definition askingContext :: ConversationContext where
  "askingContext =
     \<lparr>threadTs = ''17.1'', channel = ''C1'', userId = ''U1'', jiraTicket = Some demoTicket,
      kbaDraft = None, stage = AskingQuestions, questionsAsked = [''Q1'', ''Q2''],
      userAnswers = []\<rparr>"

definition demoDraft :: KBADraft where
  "demoDraft =
     \<lparr>draftTicket = demoTicket, content = plainContent, images = [], confluencePageId = None\<rparr>"

definition reviewContext :: ConversationContext where
  "reviewContext =
     askingContext\<lparr>kbaDraft := Some demoDraft, stage := Review,
                   userAnswers := [(''answer_1'', ''mac''), (''answer_2'', ''none'')]\<rparr>"

definition stateWith :: "ConversationContext \<Rightarrow> wstate" where
  "stateWith c = putContext ''C1-17.1'' c initialState"


section \<open>Names for intermediate values of the workflow\<close>

text \<open>The context that \<^verbatim>\<open>startWorkflow\<close> stores once the questions are known, the
  context after one more answer, and the context that \<^verbatim>\<open>generateKBA\<close> stores when the
  content has been generated.\<close>

definition started :: "string \<Rightarrow> string \<Rightarrow> string \<Rightarrow> JiraTicket \<Rightarrow> string list \<Rightarrow> ConversationContext" where
  "started ch ts uid t qs =
     \<lparr>threadTs = ts, channel = ch, userId = uid, jiraTicket = Some t, kbaDraft = None,
      stage = AskingQuestions, questionsAsked = qs, userAnswers = []\<rparr>"


definition reviewed :: "env \<Rightarrow> ConversationContext \<Rightarrow> JiraTicket \<Rightarrow> KBAContent \<Rightarrow> ConversationContext" where
  "reviewed e c t cnt =
     c\<lparr>kbaDraft := Some \<lparr>draftTicket = t, content = cnt, images = fst (generateImages e cnt),
                         confluencePageId = None\<rparr>,
       stage := Review\<rparr>"

text \<open>The first message of \<^verbatim>\<open>startWorkflow\<close>, and the message that announces the image
  renders (posted when a step has an image prompt).\<close>

definition analyzingPost :: "string \<Rightarrow> string \<Rightarrow> outbound" where
  "analyzingPost ch ts = ChatPost ch ts '':mag: Analyzing Jira ticket...''"

definition artPosts :: "ConversationContext \<Rightarrow> KBAContent \<Rightarrow> outbound list" where
  "artPosts c cnt =
     (let n = length (filter (\<lambda>st. truthy (imagePrompt st)) (steps cnt)) in
      if n > 0
      then [ChatPost (channel c) (threadTs c)
              ('':art: Generating '' @ showNat n @ '' screenshot mockup(s)... This may take a minute.'')]
      else [])"

text \<open>The reference to an attachment as \<open>imageMarkup\<close> writes it.\<close>

definition refMarkup :: "string \<Rightarrow> string" where
  "refMarkup name = ''ri:filename='' @ dquote @ name @ dquote"

text \<open>The images that the wiki stores: the download and the upload both succeed.\<close>

definition stored :: "env \<Rightarrow> string \<Rightarrow> GeneratedImage \<Rightarrow> bool" where
  "stored e pid img = (\<not> isl (axiosGet e (url img)) \<and> attachmentPost e pid (uploadFilename img))"

section \<open>More concrete inputs\<close>

text \<open>Collaborators of which one fails or returns no questions.\<close>

definition notFoundEnv :: env where
  "notFoundEnv = demoEnv\<lparr>jiraGet := (\<lambda>k. Inl (HttpError (Some 404) ''Not Found''))\<rparr>"

definition questionsFailEnv :: env where
  "questionsFailEnv = demoEnv\<lparr>generateClarifyingQuestions := (\<lambda>t. Inl failure)\<rparr>"

definition noQuestionsEnv :: env where
  "noQuestionsEnv = demoEnv\<lparr>generateClarifyingQuestions := (\<lambda>t. Inr [])\<rparr>"

definition contentFailEnv :: env where
  "contentFailEnv = noQuestionsEnv\<lparr>generateKBAContent := (\<lambda>t a. Inl failure)\<rparr>"

definition publishFailEnv :: env where
  "publishFailEnv = demoEnv\<lparr>confluencePost := (\<lambda>p. Inl failure)\<rparr>"

text \<open>The first render request throws, every later one returns a url; the content has
  the step tagged for both platforms.\<close>

definition macFailsEnv :: env where
  "macFailsEnv =
     demoEnv\<lparr>generateKBAContent := (\<lambda>t a. Inr demoContent),
             imagesGenerate := (\<lambda>n p. if n = 0 then Inl failure
                                       else Inr (Some (''https://img/'' @ showNat n)))\<rparr>"

definition demoImage :: GeneratedImage where
  "demoImage =
     \<lparr>imageStepNumber = 1, url = ''https://img/0'', imageOsType = Mac,
      prompt = enhanceImagePrompt ''Network settings window'' Mac\<rparr>"

text \<open>The chat platform accepts the first message of a start and rejects every other
  post; and a wiki that refuses every attachment.\<close>

definition postsRejectedEnv :: env where
  "postsRejectedEnv =
     demoEnv\<lparr>chatPostMessage :=
               (\<lambda>m. if m = analyzingPost ''C1'' ''17.1'' then None else Some failure)\<rparr>"

definition uploadFailsEnv :: env where
  "uploadFailsEnv = demoEnv\<lparr>attachmentPost := (\<lambda>pid f. False)\<rparr>"






section \<open>The parser returns the leftmost ticket key\<close>

lemma firstOf_map: "firstOf (map f xs) = map_option f (firstOf xs)"
  by (cases xs) auto

lemma firstOf_append:
  "firstOf (xs @ ys) = (case firstOf xs of Some x \<Rightarrow> Some x | None \<Rightarrow> firstOf ys)"
  by (cases xs) auto

lemma firstOf_None: "firstOf xs = None \<longleftrightarrow> xs = []"
  by (cases xs) auto


lemma dash_not_upper: "\<not> isUpper CHR ''-''" by (simp add: isUpper_def)
lemma dash_not_digit: "\<not> isDigit CHR ''-''" by (simp add: isDigit_def)

lemma matches_digits_first:
  "firstOf (matches [Plus Digit] s) =
     (if takeWhile isDigit s = [] then None else Some (takeWhile isDigit s))"
  by (induction s) (simp_all add: firstOf_map firstOf_append)

lemma matches_dash_first:
  "firstOf (matches [Lit CHR ''-'', Plus Digit] s) =
     (case s of [] \<Rightarrow> None
      | c # r \<Rightarrow> if c = CHR ''-'' \<and> takeWhile isDigit r \<noteq> []
                 then Some (CHR ''-'' # takeWhile isDigit r) else None)"
  by (cases s) (simp_all add: firstOf_map matches_digits_first)

lemma keyAt_Cons:
  "keyAt (x # xs) =
     (if isUpper x then
        (if takeWhile isUpper xs = []
         then (case xs of [] \<Rightarrow> None
               | c # r \<Rightarrow> if c = CHR ''-'' \<and> takeWhile isDigit r \<noteq> []
                          then Some (x # CHR ''-'' # takeWhile isDigit r) else None)
         else map_option ((#) x) (keyAt xs))
      else None)"
proof (cases xs)
  case Nil
  then show ?thesis by (simp add: keyAt_def)
next
  case (Cons a list)
  show ?thesis
  proof (cases "isUpper a")
    case True
    have "\<And>r. Ball (set list) isUpper \<Longrightarrow> dropWhile isUpper list \<noteq> CHR ''-'' # r"
      by (metis dropWhile_eq_Nil_conv list.distinct(1))
    then show ?thesis using True Cons by (auto simp: keyAt_def split: list.splits)
  next
    case False
    then show ?thesis using Cons by (auto simp: keyAt_def dash_not_upper)
  qed
qed

lemma keyAt_no_upper: "takeWhile isUpper s = [] \<Longrightarrow> keyAt s = None"
  by (simp add: keyAt_def)

lemma matches_key_first: "firstOf (matches keyAtoms s) = keyAt s"
proof (induction s)
  case Nil
  show ?case by (simp add: keyAtoms_def keyAt_def)
next
  case (Cons x xs)
  have dash: "firstOf (matches [Lit CHR ''-'', Plus Digit] xs) =
     (case xs of [] \<Rightarrow> None
      | c # r \<Rightarrow> if c = CHR ''-'' \<and> takeWhile isDigit r \<noteq> []
                 then Some (CHR ''-'' # takeWhile isDigit r) else None)"
    by (rule matches_dash_first)
  have up: "takeWhile isUpper xs \<noteq> [] \<Longrightarrow> firstOf (matches [Lit CHR ''-'', Plus Digit] xs) = None"
    by (cases xs) (auto simp: dash_not_upper)
  show ?case
  proof (cases "isUpper x")
    case False
    then show ?thesis by (simp add: keyAtoms_def keyAt_Cons)
  next
    case True
    have step: "firstOf (matches keyAtoms (x # xs)) =
        map_option ((#) x) (case keyAt xs of Some m \<Rightarrow> Some m
           | None \<Rightarrow> firstOf (matches [Lit CHR ''-'', Plus Digit] xs))"
      using True Cons.IH
      by (simp add: keyAtoms_def firstOf_map firstOf_append split: option.splits)
    show ?thesis
    proof (cases "takeWhile isUpper xs = []")
      case True
      then show ?thesis
        using \<open>isUpper x\<close> step dash keyAt_no_upper [OF True]
        by (simp add: keyAt_Cons split: list.splits)
    next
      case False
      then show ?thesis
        using \<open>isUpper x\<close> step up [OF False]
        by (simp add: keyAt_Cons split: option.splits)
    qed
  qed
qed



lemma keyAt_Nil: "keyAt [] = None" by (simp add: keyAt_def)

lemma regexMatch_bare: "regexMatch (Regex [] keyAtoms) s = searchKey s"
  by (induction s) (simp_all add: groupAt_def matches_key_first keyAt_Nil split: option.splits)

lemma matches_literal:
  "matches (map Lit w @ as) s = (if prefix w s then map ((@) w) (matches as (drop (length w) s)) else [])"
proof (induction w arbitrary: s)
  case Nil
  have "(@) ([] :: string) = (\<lambda>x. x)" by (simp add: fun_eq_iff)
  then show ?case by simp
next
  case (Cons c w)
  have "\<And>x. (#) x \<circ> (@) w = (@) (x # w)" by (simp add: fun_eq_iff)
  then show ?case by (cases s) (auto simp: Cons.IH)
qed

lemma matches_literal_only:
  "matches (map Lit w) s = (if prefix w s then [w] else [])"
  using matches_literal [of w "[]" s] by simp

lemma groupAt_browse:
  "firstOf (groupAt (Regex (map Lit w) keyAtoms) s) =
     (if prefix w s then keyAt (drop (length w) s) else None)"
  by (simp add: groupAt_def matches_literal_only matches_key_first)

lemma searchKey_None_suffix: "searchKey s = None \<Longrightarrow> keyAt (drop n s) = None"
proof (induction s arbitrary: n)
  case Nil
  show ?case by (simp add: keyAt_Nil)
next
  case (Cons x xs)
  then show ?case by (cases n) (auto split: option.splits)
qed

lemma regexMatch_browse_None:
  "searchKey s = None \<Longrightarrow> regexMatch (Regex (map Lit w) keyAtoms) s = None"
proof (induction s)
  case Nil
  show ?case by (simp add: groupAt_browse keyAt_Nil)
next
  case (Cons x xs)
  from Cons.prems have k: "keyAt (drop (length w) (x # xs)) = None"
    by (rule searchKey_None_suffix)
  from Cons.prems have "searchKey xs = None" by (simp split: option.splits)
  with Cons.IH k show ?case by (simp add: groupAt_browse del: drop_Suc_Cons)
qed

lemma extractTicketKey_searchKey: "extractTicketKey text = searchKey text"
proof (cases "searchKey text")
  case None
  then have "regexMatch (Regex (map Lit ''browse/'') keyAtoms) text = None"
    by (rule regexMatch_browse_None)
  with None show ?thesis
    by (simp add: extractTicketKey_def patterns_def regexMatch_bare del: list.map)
next
  case (Some k)
  then show ?thesis
    by (simp add: extractTicketKey_def patterns_def regexMatch_bare del: list.map)
qed

lemma isTicketKey_iff:
  "isTicketKey k \<longleftrightarrow>
     (\<exists>ls ds. k = ls @ CHR ''-'' # ds \<and> ls \<noteq> [] \<and> (\<forall>c\<in>set ls. isUpper c) \<and>
              ds \<noteq> [] \<and> (\<forall>c\<in>set ds. isDigit c))"
proof
  assume "isTicketKey k"
  then obtain ds where ls: "takeWhile isUpper k \<noteq> []"
    and dw: "dropWhile isUpper k = CHR ''-'' # ds" and ds: "ds \<noteq> []" "list_all isDigit ds"
    by (auto simp: isTicketKey_def Let_def split: list.splits)
  have "k = takeWhile isUpper k @ CHR ''-'' # ds"
    using takeWhile_dropWhile_id [of isUpper k] dw by simp
  moreover have "\<forall>c\<in>set (takeWhile isUpper k). isUpper c"
    by (auto dest: set_takeWhileD)
  ultimately show "\<exists>ls ds. k = ls @ CHR ''-'' # ds \<and> ls \<noteq> [] \<and> (\<forall>c\<in>set ls. isUpper c) \<and>
              ds \<noteq> [] \<and> (\<forall>c\<in>set ds. isDigit c)"
    using ls ds by (auto simp: list_all_iff)
next
  assume "\<exists>ls ds. k = ls @ CHR ''-'' # ds \<and> ls \<noteq> [] \<and> (\<forall>c\<in>set ls. isUpper c) \<and>
              ds \<noteq> [] \<and> (\<forall>c\<in>set ds. isDigit c)"
  then obtain ls ds where k: "k = ls @ CHR ''-'' # ds" and ls: "ls \<noteq> []" "\<forall>c\<in>set ls. isUpper c"
    and ds: "ds \<noteq> []" "\<forall>c\<in>set ds. isDigit c" by blast
  have "takeWhile isUpper k = ls" "dropWhile isUpper k = CHR ''-'' # ds"
    using k ls by (simp_all add: takeWhile_append2 dropWhile_append2 dash_not_upper)
  then show "isTicketKey k"
    using ls ds by (simp add: isTicketKey_def list_all_iff)
qed

lemma keyAt_extends:
  assumes "isTicketKey k"
  shows "keyAt (k @ rest) = Some (k @ takeWhile isDigit rest)"
proof -
  from assms obtain ls ds where k: "k = ls @ CHR ''-'' # ds" and ls: "ls \<noteq> []" "\<forall>c\<in>set ls. isUpper c"
    and ds: "ds \<noteq> []" "\<forall>c\<in>set ds. isDigit c" unfolding isTicketKey_iff by blast
  have tw: "takeWhile isUpper (k @ rest) = ls" "dropWhile isUpper (k @ rest) = CHR ''-'' # ds @ rest"
    using k ls by (simp_all add: takeWhile_append2 dropWhile_append2 dash_not_upper)
  have "takeWhile isDigit (ds @ rest) = ds @ takeWhile isDigit rest"
    using ds by (simp add: takeWhile_append2)
  then show ?thesis using tw ls ds k by (simp add: keyAt_def)
qed

lemma keyAt_sound:
  assumes "keyAt s = Some k"
  shows "isTicketKey k \<and> (\<exists>rest. s = k @ rest \<and> takeWhile isDigit rest = [])"
proof -
  from assms obtain r where ls: "takeWhile isUpper s \<noteq> []"
    and dw: "dropWhile isUpper s = CHR ''-'' # r" and r: "takeWhile isDigit r \<noteq> []"
    and k: "k = takeWhile isUpper s @ CHR ''-'' # takeWhile isDigit r"
    by (auto simp: keyAt_def Let_def split: list.splits if_splits)
  have "isTicketKey k" unfolding isTicketKey_iff
    using ls r k by (intro exI [of _ "takeWhile isUpper s"] exI [of _ "takeWhile isDigit r"])
       (auto dest: set_takeWhileD)
  moreover have "s = k @ dropWhile isDigit r"
    using takeWhile_dropWhile_id [of isUpper s] takeWhile_dropWhile_id [of isDigit r] dw k
    by (metis append.assoc append_Cons)
  moreover have "takeWhile isDigit (dropWhile isDigit r) = []"
    by (metis hd_dropWhile takeWhile.simps(1) takeWhile_eq_Nil_iff)
  ultimately show ?thesis by blast
qed

lemma searchKey_Some:
  "searchKey s = Some k \<Longrightarrow>
     \<exists>pre post. s = pre @ k @ post \<and> keyAt (k @ post) = Some k \<and>
        (\<forall>n < length pre. keyAt (drop n s) = None)"
proof (induction s)
  case Nil
  then show ?case by simp
next
  case (Cons x xs)
  show ?case
  proof (cases "keyAt (x # xs)")
    case (Some k')
    with Cons.prems have kk: "k' = k" by simp
    from keyAt_sound [OF Some] kk obtain rest where "x # xs = k @ rest" by blast
    with Some kk have "x # xs = [] @ k @ rest \<and> keyAt (k @ rest) = Some k \<and>
        (\<forall>n < length ([] :: string). keyAt (drop n (x # xs)) = None)" by simp
    then show ?thesis by blast
  next
    case None
    with Cons.prems have "searchKey xs = Some k" by simp
    from Cons.IH [OF this] obtain pre post where p: "xs = pre @ k @ post"
      "keyAt (k @ post) = Some k" "\<forall>n < length pre. keyAt (drop n xs) = None" by blast
    have "\<forall>n < length (x # pre). keyAt (drop n (x # xs)) = None"
    proof (intro allI impI)
      fix n assume "n < length (x # pre)"
      then show "keyAt (drop n (x # xs)) = None"
        using None p(3) by (cases n) auto
    qed
    with p have "x # xs = (x # pre) @ k @ post \<and> keyAt (k @ post) = Some k \<and>
        (\<forall>n < length (x # pre). keyAt (drop n (x # xs)) = None)" by simp
    then show ?thesis by blast
  qed
qed

lemma searchKey_None_iff:
  "searchKey s = None \<longleftrightarrow> (\<forall>pre k post. s = pre @ k @ post \<longrightarrow> \<not> isTicketKey k)"
proof
  assume n: "searchKey s = None"
  show "\<forall>pre k post. s = pre @ k @ post \<longrightarrow> \<not> isTicketKey k"
  proof (intro allI impI notI)
    fix pre k post assume s: "s = pre @ k @ post" and k: "isTicketKey k"
    from searchKey_None_suffix [OF n, of "length pre"] s
    have "keyAt (k @ post) = None" by simp
    with keyAt_extends [OF k, of post] show False by simp
  qed
next
  assume a: "\<forall>pre k post. s = pre @ k @ post \<longrightarrow> \<not> isTicketKey k"
  show "searchKey s = None"
  proof (cases "searchKey s")
    case None then show ?thesis .
  next
    case (Some k)
    from searchKey_Some [OF Some] obtain pre post where
      "s = pre @ k @ post" "keyAt (k @ post) = Some k" by blast
    with keyAt_sound [of "k @ post" k] a show ?thesis by blast
  qed
qed

text \<open>
  Claim C7. For every text, \<open>extractTicketKey\<close> returns \<open>None\<close> exactly when no substring
  of the text is a ticket key (upper-case letters, a dash, digits); and when it returns a
  key, the text splits around that key, the key has the pattern, no substring with the
  pattern starts further left, and none that starts at the same place is longer. This holds
  for a key inside a URL path such as \<^verbatim>\<open>browse/TECH-456\<close> as for a bare one. The function
  has a result for every text: it has no path that throws.
\<close>

theorem extractTicketKey_first_match:
  "(extractTicketKey text = None \<longleftrightarrow>
      (\<forall>pre k post. text = pre @ k @ post \<longrightarrow> \<not> isTicketKey k)) \<and>
   (\<forall>k. extractTicketKey text = Some k \<longrightarrow>
      (\<exists>pre post. text = pre @ k @ post \<and> isTicketKey k \<and>
         (\<forall>pre' k' post'. text = pre' @ k' @ post' \<and> isTicketKey k' \<longrightarrow>
            length pre \<le> length pre' \<and>
            (length pre' = length pre \<longrightarrow> length k' \<le> length k))))"
proof (intro conjI allI impI)
  show "extractTicketKey text = None \<longleftrightarrow>
      (\<forall>pre k post. text = pre @ k @ post \<longrightarrow> \<not> isTicketKey k)"
    by (simp only: extractTicketKey_searchKey searchKey_None_iff)
next
  fix k assume "extractTicketKey text = Some k"
  then have "searchKey text = Some k" by (simp only: extractTicketKey_searchKey)
  from searchKey_Some [OF this] obtain pre post where t: "text = pre @ k @ post"
    and kp: "keyAt (k @ post) = Some k"
    and first: "\<forall>n < length pre. keyAt (drop n text) = None" by blast
  from keyAt_sound [OF kp] have key: "isTicketKey k" by blast
  have "\<forall>pre' k' post'. text = pre' @ k' @ post' \<and> isTicketKey k' \<longrightarrow>
            length pre \<le> length pre' \<and>
            (length pre' = length pre \<longrightarrow> length k' \<le> length k)"
  proof (intro allI impI, elim conjE)
    fix pre' k' post' assume t': "text = pre' @ k' @ post'" and k': "isTicketKey k'"
    have at: "keyAt (drop (length pre') text) = Some (k' @ takeWhile isDigit post')"
      using keyAt_extends [OF k', of post'] t' by simp
    have le: "length pre \<le> length pre'"
    proof (rule ccontr)
      assume "\<not> length pre \<le> length pre'"
      then have "length pre' < length pre" by simp
      with first at show False by simp
    qed
    have "length pre' = length pre \<longrightarrow> length k' \<le> length k"
    proof
      assume "length pre' = length pre"
      with at t kp have "Some k = Some (k' @ takeWhile isDigit post')" by simp
      then show "length k' \<le> length k" by simp
    qed
    with le show "length pre \<le> length pre' \<and>
            (length pre' = length pre \<longrightarrow> length k' \<le> length k)" by simp
  qed
  with t key show "\<exists>pre post. text = pre @ k @ post \<and> isTicketKey k \<and>
         (\<forall>pre' k' post'. text = pre' @ k' @ post' \<and> isTicketKey k' \<longrightarrow>
            length pre \<le> length pre' \<and>
            (length pre' = length pre \<longrightarrow> length k' \<le> length k))" by blast
qed


theorem extractTicketKey_first_match_witness:
  "extractTicketKey ''see https://host/browse/TECH-456 or AB-1'' = Some ''TECH-456'' \<and>
   isTicketKey ''TECH-456'' \<and>
   extractTicketKey ''proj-12 has no key'' = None \<and>
   \<not> isTicketKey ''proj-12''"
proof -
  have a: "extractTicketKey ''see https://host/browse/TECH-456 or AB-1'' = Some ''TECH-456''"
    by code_simp
  have b: "extractTicketKey ''proj-12 has no key'' = None"
    by code_simp
  from extractTicketKey_first_match [of "''see https://host/browse/TECH-456 or AB-1''"] a
  have c: "isTicketKey ''TECH-456''" by blast
  from extractTicketKey_first_match [of "''proj-12 has no key''"] b
  have "\<forall>pre k post. ''proj-12 has no key'' = pre @ k @ post \<longrightarrow> \<not> isTicketKey k"
    by blast
  then have "''proj-12 has no key'' = [] @ ''proj-12'' @ '' has no key'' \<longrightarrow> \<not> isTicketKey ''proj-12''"
    by blast
  then have d: "\<not> isTicketKey ''proj-12''" by simp
  from a b c d show ?thesis by blast
qed

section \<open>Frame properties of the state operations\<close>

lemma post_fields [simp]:
  "contexts (post m s) = contexts s"
  "outbox (post m s) = outbox s @ [m]"
  "calls (post m s) = calls s"
  "timers (post m s) = timers s"
  "attachments (post m s) = attachments s"
  by (simp_all add: post_def)

lemma andThen_simps [simp]:
  "andThen (None, s) f = f s"
  "andThen (Some err, s) f = (Some err, s)"
  by (simp_all add: andThen_def)

lemma tryCatch_simps [simp]:
  "tryCatch (None, s) h = (None, s)"
  "tryCatch (Some err, s) h = h err s"
  by (simp_all add: tryCatch_def)

text \<open>A property of the state that every part of a sequence keeps is kept by the
  sequence, whether it ends or throws; the same for a handler.\<close>

lemma andThen_inv:
  "P (snd r) \<Longrightarrow> (\<And>s1. P s1 \<Longrightarrow> P (snd (f s1))) \<Longrightarrow> P (snd (andThen r f))"
  by (cases r) (auto simp: andThen_def split: option.splits)

lemma tryCatch_inv:
  "P (snd r) \<Longrightarrow> (\<And>err s1. P s1 \<Longrightarrow> P (snd (h err s1))) \<Longrightarrow> P (snd (tryCatch r h))"
  by (cases r) (auto simp: tryCatch_def split: option.splits)

text \<open>A post is accepted and recorded, or rejected and leaves the state as it was.\<close>

lemma chatPost_cases:
  "chatPost e m s = (None, post m s) \<or> (\<exists>err. chatPost e m s = (Some err, s))"
  by (simp add: chatPost_def split: option.splits)

lemma sendMessage_cases:
  "sendMessage e ch ts text s = (None, post (ChatPost ch ts text) s) \<or>
   (\<exists>err. sendMessage e ch ts text s = (Some err, s))"
  unfolding sendMessage_def by (rule chatPost_cases)

lemma chatPost_accepted [simp]: "acceptsPosts e \<Longrightarrow> chatPost e m s = (None, post m s)"
  by (simp add: chatPost_def acceptsPosts_def)

lemma sendMessage_accepted [simp]:
  "acceptsPosts e \<Longrightarrow> sendMessage e ch ts text s = (None, post (ChatPost ch ts text) s)"
  by (simp add: sendMessage_def)

lemma chatPost_fields [simp]:
  "contexts (snd (chatPost e m s)) = contexts s"
  "calls (snd (chatPost e m s)) = calls s"
  "timers (snd (chatPost e m s)) = timers s"
  "attachments (snd (chatPost e m s)) = attachments s"
  by (simp_all add: chatPost_def split: option.splits)

lemma sendMessage_fields [simp]:
  "contexts (snd (sendMessage e ch ts text s)) = contexts s"
  "calls (snd (sendMessage e ch ts text s)) = calls s"
  "timers (snd (sendMessage e ch ts text s)) = timers s"
  "attachments (snd (sendMessage e ch ts text s)) = attachments s"
  by (simp_all add: sendMessage_def)

lemma logCall_fields [simp]:
  "contexts (logCall c s) = contexts s"
  "outbox (logCall c s) = outbox s"
  "calls (logCall c s) = calls s @ [c]"
  "timers (logCall c s) = timers s"
  "attachments (logCall c s) = attachments s"
  by (simp_all add: logCall_def)

lemma putContext_fields [simp]:
  "contexts (putContext k c s) = (contexts s)(k \<mapsto> c)"
  "outbox (putContext k c s) = outbox s"
  "calls (putContext k c s) = calls s"
  "timers (putContext k c s) = timers s"
  "attachments (putContext k c s) = attachments s"
  by (simp_all add: putContext_def)

lemma deleteContext_fields [simp]:
  "contexts (deleteContext k s) = (contexts s)(k := None)"
  "outbox (deleteContext k s) = outbox s"
  "calls (deleteContext k s) = calls s"
  "timers (deleteContext k s) = timers s"
  "attachments (deleteContext k s) = attachments s"
  by (simp_all add: deleteContext_def)

lemma uploadPreviews_fields [simp]:
  "contexts (uploadPreviews e ch ts imgs s) = contexts s"
  "calls (uploadPreviews e ch ts imgs s) = calls s"
  "timers (uploadPreviews e ch ts imgs s) = timers s"
  "attachments (uploadPreviews e ch ts imgs s) = attachments s"
  by (induction imgs arbitrary: s) simp_all

lemma uploadPreviews_outbox:
  "outbox (uploadPreviews e ch ts imgs s) =
     outbox s @ map (previewUpload ch ts) (filter (filesUploadV2 e) imgs)"
  by (induction imgs arbitrary: s) simp_all

lemma showPreview_fields [simp]:
  "contexts (snd (showPreview e k s)) = contexts s"
  "calls (snd (showPreview e k s)) = calls s"
  "timers (snd (showPreview e k s)) = timers s"
  "attachments (snd (showPreview e k s)) = attachments s"
proof -
  have "contexts (snd (showPreview e k s)) = contexts s \<and> calls (snd (showPreview e k s)) = calls s \<and>
        timers (snd (showPreview e k s)) = timers s \<and>
        attachments (snd (showPreview e k s)) = attachments s"
  proof (cases "contexts s k")
    case None
    then show ?thesis by (simp add: showPreview_def)
  next
    case (Some c)
    show ?thesis
    proof (cases "kbaDraft c")
      case None
      with Some show ?thesis by (simp add: showPreview_def)
    next
      case (Some d)
      from sendMessage_cases [of e "channel c" "threadTs c" "previewText (content d) (images d)" s]
      show ?thesis using \<open>contexts s k = Some c\<close> Some
        by (auto simp: showPreview_def Let_def)
    qed
  qed
  then show "contexts (snd (showPreview e k s)) = contexts s" "calls (snd (showPreview e k s)) = calls s"
    "timers (snd (showPreview e k s)) = timers s"
    "attachments (snd (showPreview e k s)) = attachments s" by simp_all
qed

lemma showPreview_accepted:
  "acceptsPosts e \<Longrightarrow> contexts s k = Some c \<Longrightarrow> kbaDraft c = Some d \<Longrightarrow>
   showPreview e k s =
     (None, post (ApprovalRequest (channel c) (threadTs c) k)
              (uploadPreviews e (channel c) (threadTs c) (images d)
                 (post (ChatPost (channel c) (threadTs c) (previewText (content d) (images d))) s)))"
  by (simp add: showPreview_def Let_def)

lemma showPreview_outbox:
  "acceptsPosts e \<Longrightarrow> contexts s k = Some c \<Longrightarrow> kbaDraft c = Some d \<Longrightarrow>
   outbox (snd (showPreview e k s)) =
     outbox s @ ChatPost (channel c) (threadTs c) (previewText (content d) (images d)) #
       map (previewUpload (channel c) (threadTs c)) (filter (filesUploadV2 e) (images d)) @
       [ApprovalRequest (channel c) (threadTs c) k]"
  by (simp add: showPreview_accepted uploadPreviews_outbox)

lemma uploadImages_fields [simp]:
  "contexts (uploadImages e pid imgs s) = contexts s"
  "outbox (uploadImages e pid imgs s) = outbox s"
  "timers (uploadImages e pid imgs s) = timers s"
  by (induction imgs arbitrary: s) (simp_all add: Let_def split: sum.splits)

lemma uploadImages_calls:
  "\<exists>cs. calls (uploadImages e pid imgs s) = calls s @ cs \<and> list_all isPublishing cs"
proof (induction imgs arbitrary: s)
  case Nil
  show ?case by simp
next
  case (Cons img rest)
  show ?case
  proof (cases "axiosGet e (url img)")
    case (Inl err)
    from Cons [of "logCall (Download (url img)) s"] obtain cs where
      "calls (uploadImages e pid rest (logCall (Download (url img)) s)) =
         calls (logCall (Download (url img)) s) @ cs" "list_all isPublishing cs" by blast
    with Inl have "calls (uploadImages e pid (img # rest) s) = calls s @ (Download (url img) # cs) \<and>
        list_all isPublishing (Download (url img) # cs)" by simp
    then show ?thesis by blast
  next
    case (Inr buf)
    let ?s2 = "logCall (UploadAttachment pid (uploadFilename img)) (logCall (Download (url img)) s)"
    let ?s3 = "?s2\<lparr>attachments := attachments ?s2 @ [(pid, uploadFilename img)]\<rparr>"
    from Cons [of ?s2] obtain cs where a: "calls (uploadImages e pid rest ?s2) = calls ?s2 @ cs"
      "list_all isPublishing cs" by blast
    from Cons [of ?s3] obtain cs' where b: "calls (uploadImages e pid rest ?s3) = calls ?s3 @ cs'"
      "list_all isPublishing cs'" by blast
    show ?thesis
    proof (cases "attachmentPost e pid (uploadFilename img)")
      case True
      with Inr b have "calls (uploadImages e pid (img # rest) s) =
          calls s @ (Download (url img) # UploadAttachment pid (uploadFilename img) # cs') \<and>
          list_all isPublishing (Download (url img) # UploadAttachment pid (uploadFilename img) # cs')"
        by (simp add: Let_def)
      then show ?thesis by blast
    next
      case False
      with Inr a have "calls (uploadImages e pid (img # rest) s) =
          calls s @ (Download (url img) # UploadAttachment pid (uploadFilename img) # cs) \<and>
          list_all isPublishing (Download (url img) # UploadAttachment pid (uploadFilename img) # cs)"
        by (simp add: Let_def)
      then show ?thesis by blast
    qed
  qed
qed


lemma createKBAPage_fails:
  "confluencePost e (kbaPage e cnt imgs jk) = Inl err \<Longrightarrow>
   createKBAPage e cnt imgs jk s =
     (Inl (Error (''Failed to create Confluence page: '' @ message err)),
      logCall (CreatePage (kbaPage e cnt imgs jk)) s)"
  by (simp add: createKBAPage_def Let_def)

lemma createKBAPage_calls:
  "\<exists>cs. calls (snd (createKBAPage e cnt imgs jk s)) =
          calls s @ CreatePage (kbaPage e cnt imgs jk) # cs \<and> list_all isPublishing cs"
proof (cases "confluencePost e (kbaPage e cnt imgs jk)")
  case (Inl err)
  then show ?thesis by (simp add: createKBAPage_fails)
next
  case (Inr pid)
  from uploadImages_calls [of e pid imgs "logCall (CreatePage (kbaPage e cnt imgs jk)) s"]
  obtain cs where "calls (uploadImages e pid imgs (logCall (CreatePage (kbaPage e cnt imgs jk)) s)) =
      calls (logCall (CreatePage (kbaPage e cnt imgs jk)) s) @ cs" "list_all isPublishing cs" by blast
  with Inr show ?thesis by (simp add: createKBAPage_def Let_def)
qed

section \<open>generateKBA\<close>

lemma renderEach_no_steps_change:
  "generateImagesFrom e sts acc = acc" if "\<forall>st\<in>set sts. \<not> truthy (imagePrompt st)"
  using that by (induction sts arbitrary: acc) simp_all

lemma generateImages_no_prompts:
  "filter (\<lambda>st. truthy (imagePrompt st)) (steps cnt) = [] \<Longrightarrow> generateImages e cnt = ([], [])"
  by (simp add: generateImages_def renderEach_no_steps_change filter_empty_conv)

lemma generateKBA_absent: "contexts s k = None \<Longrightarrow> generateKBA e k s = s"
  by (simp add: generateKBA_def generateKBA_call_def)

lemma generateKBA_no_ticket:
  "contexts s k = Some c \<Longrightarrow> jiraTicket c = None \<Longrightarrow> generateKBA e k s = s"
  by (simp add: generateKBA_def generateKBA_call_def)

lemma showPreview_resolves: "acceptsPosts e \<Longrightarrow> fst (showPreview e k s) = None"
  by (simp add: showPreview_def Let_def split: option.splits)

text \<open>When the chat platform accepts its posts, \<open>generateKBA\<close> resolves: an error of the
  content generation is caught, reported, and the context deleted.\<close>

lemma generateKBA_resolves:
  assumes "acceptsPosts e"
  shows "generateKBA_call e k s = (None, generateKBA e k s)"
proof -
  have "fst (generateKBA_call e k s) = None"
  proof (cases "contexts s k")
    case None
    then show ?thesis by (simp add: generateKBA_call_def)
  next
    case (Some c)
    show ?thesis
    proof (cases "jiraTicket c")
      case None
      with Some show ?thesis by (simp add: generateKBA_call_def)
    next
      case (Some t)
      show ?thesis
      proof (cases "generateKBAContent e t (userAnswers c)")
        case (Inl err)
        with assms \<open>contexts s k = Some c\<close> Some show ?thesis
          by (simp add: generateKBA_call_def generateKBA_try_def generateKBA_catch_def Let_def)
      next
        case (Inr cnt)
        have "fst (tryCatch (showPreview e k s') h) = None" for s' h
          using showPreview_resolves [OF assms, of k s']
          by (cases "showPreview e k s'") simp
        with assms \<open>contexts s k = Some c\<close> Some Inr show ?thesis
          by (simp add: generateKBA_call_def generateKBA_try_def Let_def)
      qed
    qed
  qed
  then show ?thesis by (simp add: generateKBA_def prod_eq_iff)
qed

lemma generateKBA_failure:
  assumes "acceptsPosts e" "contexts s k = Some c" "jiraTicket c = Some t"
    and "generateKBAContent e t (userAnswers c) = Inl err"
  shows "contexts (generateKBA e k s) = (contexts s)(k := None)"
    and "outbox (generateKBA e k s) =
           outbox s @ [ChatPost (channel c) (threadTs c) '':pencil: Generating KBA content...'',
                       ChatPost (channel c) (threadTs c) ('':x: Error generating KBA: '' @ message err)]"
    and "calls (generateKBA e k s) = calls s @ [GenerateContent t (userAnswers c)]"
    and "timers (generateKBA e k s) = timers s"
    and "attachments (generateKBA e k s) = attachments s"
  using assms
  by (simp_all add: generateKBA_def generateKBA_call_def generateKBA_try_def generateKBA_catch_def
        Let_def)

lemma generateKBA_review:
  assumes "acceptsPosts e" "contexts s k = Some c" "jiraTicket c = Some t"
    and "generateKBAContent e t (userAnswers c) = Inr cnt"
  shows "generateKBA e k s =
     snd (showPreview e k
            (putContext k (reviewed e c t cnt)
               ((fold post (artPosts c cnt)
                   (logCall (GenerateContent t (userAnswers c))
                      (post (ChatPost (channel c) (threadTs c) '':pencil: Generating KBA content...'')
                         (putContext k (c\<lparr>stage := Generating\<rparr>) s))))
                \<lparr>calls := calls s @ GenerateContent t (userAnswers c) # snd (generateImages e cnt)\<rparr>)))"
proof -
  let ?n = "length (filter (\<lambda>st. truthy (imagePrompt st)) (steps cnt))"
  have gen: "(if ?n > 0 then generateImages e cnt else ([], [])) = generateImages e cnt"
    using generateImages_no_prompts [of cnt e] by auto
  have pass: "snd (tryCatch r h) = snd r" if "fst r = None" for r :: outcome and h
    using that by (cases r) simp
  show ?thesis
  proof (cases "?n > 0")
    case True
    with assms gen show ?thesis
      by (simp add: generateKBA_def generateKBA_call_def generateKBA_try_def Let_def
            pass showPreview_resolves reviewed_def artPosts_def)
  next
    case False
    with assms gen show ?thesis
      by (simp add: generateKBA_def generateKBA_call_def generateKBA_try_def Let_def
            pass showPreview_resolves reviewed_def artPosts_def)
  qed
qed

lemma fold_post_fields [simp]:
  "contexts (fold post ms s) = contexts s"
  "outbox (fold post ms s) = outbox s @ ms"
  "calls (fold post ms s) = calls s"
  "timers (fold post ms s) = timers s"
  "attachments (fold post ms s) = attachments s"
  by (induction ms arbitrary: s) simp_all

lemma generateKBA_success:
  assumes "acceptsPosts e" "contexts s k = Some c" "jiraTicket c = Some t"
    and "generateKBAContent e t (userAnswers c) = Inr cnt"
  shows "contexts (generateKBA e k s) = (contexts s)(k \<mapsto> reviewed e c t cnt)"
    and "outbox (generateKBA e k s) =
           outbox s @ ChatPost (channel c) (threadTs c) '':pencil: Generating KBA content...'' #
             artPosts c cnt @
             ChatPost (channel c) (threadTs c) (previewText cnt (fst (generateImages e cnt))) #
             map (previewUpload (channel c) (threadTs c))
               (filter (filesUploadV2 e) (fst (generateImages e cnt))) @
             [ApprovalRequest (channel c) (threadTs c) k]"
    and "calls (generateKBA e k s) =
           calls s @ GenerateContent t (userAnswers c) # snd (generateImages e cnt)"
    and "timers (generateKBA e k s) = timers s"
    and "attachments (generateKBA e k s) = attachments s"
proof -
  note eq = generateKBA_review [OF assms]
  show "contexts (generateKBA e k s) = (contexts s)(k \<mapsto> reviewed e c t cnt)"
    by (simp add: eq)
  show "calls (generateKBA e k s) =
           calls s @ GenerateContent t (userAnswers c) # snd (generateImages e cnt)"
    by (simp add: eq)
  show "timers (generateKBA e k s) = timers s" by (simp add: eq)
  show "attachments (generateKBA e k s) = attachments s" by (simp add: eq)
  show "outbox (generateKBA e k s) =
           outbox s @ ChatPost (channel c) (threadTs c) '':pencil: Generating KBA content...'' #
             artPosts c cnt @
             ChatPost (channel c) (threadTs c) (previewText cnt (fst (generateImages e cnt))) #
             map (previewUpload (channel c) (threadTs c))
               (filter (filesUploadV2 e) (fst (generateImages e cnt))) @
             [ApprovalRequest (channel c) (threadTs c) k]"
    unfolding eq
    by (subst showPreview_outbox [OF assms(1), where c = "reviewed e c t cnt" and
          d = "\<lparr>draftTicket = t, content = cnt, images = fst (generateImages e cnt),
                confluencePageId = None\<rparr>"])
       (simp_all add: reviewed_def)
qed

section \<open>Actions on a thread without a context\<close>

text \<open>
  Claim C10. Approve, request-changes and cancel on a thread key that has no stored context
  return the state they were given: the context map, the posted messages and everything
  else are unchanged. The same holds for approve on a context that has no draft.
\<close>

theorem actions_without_context_noop:
  "(contexts s k = None \<longrightarrow>
      approveAndPublish e k uid s = s \<and> requestChanges e k s = s \<and> cancelKBA e k s = s) \<and>
   (\<forall>c. contexts s k = Some c \<and> kbaDraft c = None \<longrightarrow> approveAndPublish e k uid s = s)"
  by (simp add: approveAndPublish_def requestChanges_def cancelKBA_def
        approveAndPublish_call_def requestChanges_call_def cancelKBA_call_def)

theorem actions_without_context_noop_witness:
  "contexts (stateWith askingContext) ''C9-1.0'' = None \<and>
   approveAndPublish demoEnv ''C9-1.0'' ''U1'' (stateWith askingContext) = stateWith askingContext \<and>
   requestChanges demoEnv ''C9-1.0'' (stateWith askingContext) = stateWith askingContext \<and>
   cancelKBA demoEnv ''C9-1.0'' (stateWith askingContext) = stateWith askingContext \<and>
   contexts (stateWith askingContext) ''C1-17.1'' = Some askingContext \<and>
   kbaDraft askingContext = None \<and>
   approveAndPublish demoEnv ''C1-17.1'' ''U1'' (stateWith askingContext) = stateWith askingContext"
proof -
  have a: "contexts (stateWith askingContext) ''C9-1.0'' = None"
    by (simp add: stateWith_def initialState_def)
  have b: "contexts (stateWith askingContext) ''C1-17.1'' = Some askingContext"
    by (simp add: stateWith_def)
  have c: "kbaDraft askingContext = None"
    by (simp add: askingContext_def)
  from actions_without_context_noop [of "stateWith askingContext" "''C9-1.0''" demoEnv "''U1''"] a
  have d: "approveAndPublish demoEnv ''C9-1.0'' ''U1'' (stateWith askingContext) = stateWith askingContext \<and>
   requestChanges demoEnv ''C9-1.0'' (stateWith askingContext) = stateWith askingContext \<and>
   cancelKBA demoEnv ''C9-1.0'' (stateWith askingContext) = stateWith askingContext" by blast
  from actions_without_context_noop [of "stateWith askingContext" "''C1-17.1''" demoEnv "''U1''"] b c
  have "approveAndPublish demoEnv ''C1-17.1'' ''U1'' (stateWith askingContext) = stateWith askingContext"
    by blast
  with a b c d show ?thesis by blast
qed

section \<open>startWorkflow, case by case\<close>

lemma startWorkflow_unparsed:
  "acceptsPosts e \<Longrightarrow> extractTicketKey text = None \<Longrightarrow>
   startWorkflow e ch ts uid text s =
     post (ChatPost ch ts
       '':x: Could not extract Jira ticket key from the URL. Please provide a valid Jira ticket URL.'')
       (post (ChatPost ch ts '':mag: Analyzing Jira ticket...'') s)"
  by (simp add: startWorkflow_def startWorkflow_call_def startWorkflow_try_def)

lemma extractTicketKey_Some_key: "extractTicketKey t = Some tk \<Longrightarrow> isTicketKey tk"
proof -
  assume "extractTicketKey t = Some tk"
  then have "searchKey t = Some tk" by (simp only: extractTicketKey_searchKey)
  from searchKey_Some [OF this] obtain pre post where "keyAt (tk @ post) = Some tk" by blast
  from keyAt_sound [OF this] show ?thesis by blast
qed

lemma extractTicketKey_nonempty: "extractTicketKey t = Some tk \<Longrightarrow> tk \<noteq> []"
  by (auto dest!: extractTicketKey_Some_key simp: isTicketKey_def)

lemma startWorkflow_fetch_fails:
  assumes "acceptsPosts e" "extractTicketKey jiraUrl = Some tk" "getTicket e tk = Inl err"
  shows "contexts (startWorkflow e ch ts uid jiraUrl s) = (contexts s)(contextKey ch ts := None)"
    and "outbox (startWorkflow e ch ts uid jiraUrl s) =
           outbox s @ [analyzingPost ch ts, ChatPost ch ts ('':x: Error: '' @ message err)]"
    and "calls (startWorkflow e ch ts uid jiraUrl s) = calls s @ [FetchIssue tk]"
  using assms extractTicketKey_nonempty [OF assms(2)]
  by (simp_all add: startWorkflow_def startWorkflow_call_def startWorkflow_try_def Let_def
        startWorkflow_catch_def analyzingPost_def)

lemma startWorkflow_questions_fail:
  assumes "acceptsPosts e" "extractTicketKey jiraUrl = Some tk" "getTicket e tk = Inr t"
    and "generateClarifyingQuestions e t = Inl err"
  shows "contexts (startWorkflow e ch ts uid jiraUrl s) = (contexts s)(contextKey ch ts := None)"
    and "outbox (startWorkflow e ch ts uid jiraUrl s) =
           outbox s @ [analyzingPost ch ts, ChatPost ch ts (foundTicketText t),
                       ChatPost ch ts ('':x: Error: '' @ message err)]"
    and "calls (startWorkflow e ch ts uid jiraUrl s) = calls s @ [FetchIssue tk, AskQuestions t]"
  using assms extractTicketKey_nonempty [OF assms(2)]
  by (simp_all add: startWorkflow_def startWorkflow_call_def startWorkflow_try_def Let_def
        startWorkflow_catch_def analyzingPost_def)


lemma startWorkflow_no_questions:
  assumes "acceptsPosts e" "extractTicketKey jiraUrl = Some tk" "getTicket e tk = Inr t"
    and "generateClarifyingQuestions e t = Inr []"
  shows "\<exists>s6. startWorkflow e ch ts uid jiraUrl s = generateKBA e (contextKey ch ts) s6 \<and>
           contexts s6 = (contexts s)(contextKey ch ts \<mapsto> started ch ts uid t []) \<and>
           outbox s6 = outbox s @ [analyzingPost ch ts, ChatPost ch ts (foundTicketText t)] \<and>
           calls s6 = calls s @ [FetchIssue tk, AskQuestions t] \<and>
           timers s6 = timers s \<and> attachments s6 = attachments s"
proof -
  let ?k = "contextKey ch ts"
  let ?s2 = "logCall (FetchIssue tk) (post (ChatPost ch ts '':mag: Analyzing Jira ticket...'') s)"
  let ?c0 = "(started ch ts uid t [])\<lparr>stage := Analyzing\<rparr>"
  let ?s5 = "logCall (AskQuestions t) (post (ChatPost ch ts (foundTicketText t)) (putContext ?k ?c0 ?s2))"
  let ?s6 = "putContext ?k (started ch ts uid t []) ?s5"
  have "startWorkflow e ch ts uid jiraUrl s = generateKBA e ?k ?s6"
    using assms extractTicketKey_nonempty [OF assms(2)]
    by (simp add: startWorkflow_def startWorkflow_call_def startWorkflow_try_def Let_def
          started_def generateKBA_resolves)
  moreover have "contexts ?s6 = (contexts s)(?k \<mapsto> started ch ts uid t [])" by simp
  moreover have "outbox ?s6 = outbox s @ [analyzingPost ch ts, ChatPost ch ts (foundTicketText t)]"
    by (simp add: analyzingPost_def)
  moreover have "calls ?s6 = calls s @ [FetchIssue tk, AskQuestions t]" by simp
  moreover have "timers ?s6 = timers s" "attachments ?s6 = attachments s" by simp_all
  ultimately show ?thesis by blast
qed

lemma newPosts_append: "outbox s' = outbox s @ ms \<Longrightarrow> newPosts s s' = ms"
  by (simp add: newPosts_def)

lemma newCalls_append: "calls s' = calls s @ cs \<Longrightarrow> newCalls s s' = cs"
  by (simp add: newCalls_def)

lemma parse_demo: "extractTicketKey ''https://host/browse/TECH-456'' = Some ''TECH-456''"
  by code_simp

section \<open>A failed start and the context of the thread\<close>

text \<open>
  When the chat platform accepts every post of the call: if no ticket key can be parsed
  from the text, \<open>startWorkflow\<close> posts the error message and leaves the context map as it
  was; if the ticket fetch fails, or the question generation fails, or (with no questions)
  the content generation fails, the failure is posted with its reason and the thread key
  has no context afterwards, while every other thread keeps its own.
\<close>

lemma startWorkflow_fails_closed:
  assumes acc: "acceptsPosts e"
  shows "(extractTicketKey jiraUrl = None \<longrightarrow>
      contexts (startWorkflow e ch ts uid jiraUrl s) = contexts s \<and>
      newPosts s (startWorkflow e ch ts uid jiraUrl s) =
        [analyzingPost ch ts,
         ChatPost ch ts '':x: Could not extract Jira ticket key from the URL. Please provide a valid Jira ticket URL.'']) \<and>
   (\<forall>tk err. extractTicketKey jiraUrl = Some tk \<and> getTicket e tk = Inl err \<longrightarrow>
      contexts (startWorkflow e ch ts uid jiraUrl s) = (contexts s)(contextKey ch ts := None) \<and>
      newPosts s (startWorkflow e ch ts uid jiraUrl s) =
        [analyzingPost ch ts, ChatPost ch ts ('':x: Error: '' @ message err)]) \<and>
   (\<forall>tk t err. extractTicketKey jiraUrl = Some tk \<and> getTicket e tk = Inr t \<and>
        generateClarifyingQuestions e t = Inl err \<longrightarrow>
      contexts (startWorkflow e ch ts uid jiraUrl s) = (contexts s)(contextKey ch ts := None) \<and>
      newPosts s (startWorkflow e ch ts uid jiraUrl s) =
        [analyzingPost ch ts, ChatPost ch ts (foundTicketText t),
         ChatPost ch ts ('':x: Error: '' @ message err)]) \<and>
   (\<forall>tk t err. extractTicketKey jiraUrl = Some tk \<and> getTicket e tk = Inr t \<and>
        generateClarifyingQuestions e t = Inr [] \<and> generateKBAContent e t [] = Inl err \<longrightarrow>
      contexts (startWorkflow e ch ts uid jiraUrl s) = (contexts s)(contextKey ch ts := None) \<and>
      newPosts s (startWorkflow e ch ts uid jiraUrl s) =
        [analyzingPost ch ts, ChatPost ch ts (foundTicketText t),
         ChatPost ch ts '':pencil: Generating KBA content...'',
         ChatPost ch ts ('':x: Error generating KBA: '' @ message err)])"
proof (intro conjI allI impI; (elim conjE)?)
  assume "extractTicketKey jiraUrl = None"
  then have eq: "startWorkflow e ch ts uid jiraUrl s =
     post (ChatPost ch ts
       '':x: Could not extract Jira ticket key from the URL. Please provide a valid Jira ticket URL.'')
       (post (ChatPost ch ts '':mag: Analyzing Jira ticket...'') s)"
    by (rule startWorkflow_unparsed [OF acc])
  show "contexts (startWorkflow e ch ts uid jiraUrl s) = contexts s"
    by (simp add: eq)
  show "newPosts s (startWorkflow e ch ts uid jiraUrl s) =
        [analyzingPost ch ts,
         ChatPost ch ts '':x: Could not extract Jira ticket key from the URL. Please provide a valid Jira ticket URL.'']"
    by (rule newPosts_append) (simp add: eq analyzingPost_def)
next
  fix tk err assume a: "extractTicketKey jiraUrl = Some tk" "getTicket e tk = Inl err"
  show "contexts (startWorkflow e ch ts uid jiraUrl s) = (contexts s)(contextKey ch ts := None)"
    by (rule startWorkflow_fetch_fails(1) [OF acc a])
  show "newPosts s (startWorkflow e ch ts uid jiraUrl s) =
        [analyzingPost ch ts, ChatPost ch ts ('':x: Error: '' @ message err)]"
    by (rule newPosts_append) (rule startWorkflow_fetch_fails(2) [OF acc a])
next
  fix tk t err assume a: "extractTicketKey jiraUrl = Some tk" "getTicket e tk = Inr t"
    "generateClarifyingQuestions e t = Inl err"
  show "contexts (startWorkflow e ch ts uid jiraUrl s) = (contexts s)(contextKey ch ts := None)"
    by (rule startWorkflow_questions_fail(1) [OF acc a])
  show "newPosts s (startWorkflow e ch ts uid jiraUrl s) =
        [analyzingPost ch ts, ChatPost ch ts (foundTicketText t),
         ChatPost ch ts ('':x: Error: '' @ message err)]"
    by (rule newPosts_append) (rule startWorkflow_questions_fail(2) [OF acc a])
next
  fix tk t err assume a: "extractTicketKey jiraUrl = Some tk" "getTicket e tk = Inr t"
    "generateClarifyingQuestions e t = Inr []" and f: "generateKBAContent e t [] = Inl err"
  from startWorkflow_no_questions [OF acc a, of ch ts uid s] obtain s6 where
    s6: "startWorkflow e ch ts uid jiraUrl s = generateKBA e (contextKey ch ts) s6"
      "contexts s6 = (contexts s)(contextKey ch ts \<mapsto> started ch ts uid t [])"
      "outbox s6 = outbox s @ [analyzingPost ch ts, ChatPost ch ts (foundTicketText t)]" by blast
  have c: "contexts s6 (contextKey ch ts) = Some (started ch ts uid t [])"
    "jiraTicket (started ch ts uid t []) = Some t"
    "generateKBAContent e t (userAnswers (started ch ts uid t [])) = Inl err"
    using s6 f by (simp_all add: started_def)
  show "contexts (startWorkflow e ch ts uid jiraUrl s) = (contexts s)(contextKey ch ts := None)"
    using generateKBA_failure(1) [OF acc c] s6 by simp
  show "newPosts s (startWorkflow e ch ts uid jiraUrl s) =
        [analyzingPost ch ts, ChatPost ch ts (foundTicketText t),
         ChatPost ch ts '':pencil: Generating KBA content...'',
         ChatPost ch ts ('':x: Error generating KBA: '' @ message err)]"
    using generateKBA_failure(2) [OF acc c] s6
    by (intro newPosts_append) (simp add: started_def)
qed


text \<open>
  Claim C6 says that after a failed start no context exists for the thread key, whichever
  step of the start fails. The \<^verbatim>\<open>catch\<close> block of \<open>startWorkflow\<close> removes the context, but
  only after it has awaited the post of the error message. Here the ticket is parsed and
  fetched and the context is stored; then the chat platform rejects the post of the ticket
  summary, and rejects the post of the error message as well. The call rejects, nothing has
  been reported, and the context that the failed start created is still stored for the
  thread, in the analyzing stage.
\<close>

theorem rejected_post_leaves_started_context:
  "extractTicketKey ''https://host/browse/TECH-456'' = Some ''TECH-456'' \<and>
   getTicket postsRejectedEnv ''TECH-456'' = Inr demoTicket \<and>
   chatPostMessage postsRejectedEnv (ChatPost ''C1'' ''17.1'' (foundTicketText demoTicket)) =
     Some failure \<and>
   chatPostMessage postsRejectedEnv (ChatPost ''C1'' ''17.1'' ('':x: Error: '' @ message failure)) =
     Some failure \<and>
   contexts initialState (contextKey ''C1'' ''17.1'') = None \<and>
   fst (startWorkflow_call postsRejectedEnv ''C1'' ''17.1'' ''U1'' ''https://host/browse/TECH-456''
          initialState) = Some failure \<and>
   newPosts initialState
     (startWorkflow postsRejectedEnv ''C1'' ''17.1'' ''U1'' ''https://host/browse/TECH-456''
        initialState) = [analyzingPost ''C1'' ''17.1''] \<and>
   newCalls initialState
     (startWorkflow postsRejectedEnv ''C1'' ''17.1'' ''U1'' ''https://host/browse/TECH-456''
        initialState) = [FetchIssue ''TECH-456''] \<and>
   stageAt
     (startWorkflow postsRejectedEnv ''C1'' ''17.1'' ''U1'' ''https://host/browse/TECH-456''
        initialState) (contextKey ''C1'' ''17.1'') = Some Analyzing"
  by code_simp

section \<open>What generateKBA posts and requests\<close>

lemma isWaitingMessage_questions: "isWaitingMessage (ChatPost ch ts (questionsText qs))"
  by (simp add: questionsText_def)

lemma isWaitingMessage_remaining:
  "isWaitingMessage (ChatPost ch ts ('':white_check_mark: Got it! '' @ n @ '' more question(s) remaining.''))"
  by simp

lemma not_waiting_pencil [simp]:
  "\<not> isWaitingMessage (ChatPost ch ts '':pencil: Generating KBA content...'')"
  by simp

lemma not_waiting_error [simp]:
  "\<not> isWaitingMessage (ChatPost ch ts ('':x: Error generating KBA: '' @ m))"
  by simp

lemma not_waiting_preview [simp]:
  "\<not> isWaitingMessage (ChatPost ch ts (previewText cnt imgs))"
  by (simp add: previewText_def)

lemma not_waiting_art: "list_all (\<lambda>m. \<not> isWaitingMessage m) (artPosts c cnt)"
  by (simp add: artPosts_def Let_def)

lemma not_waiting_uploads:
  "list_all (\<lambda>m. \<not> isWaitingMessage m) (map (previewUpload ch ts) imgs)"
  by (simp add: list_all_iff previewUpload_def)

lemma generateKBA_posts:
  "acceptsPosts e \<Longrightarrow>
   \<exists>ms. outbox (generateKBA e k s) = outbox s @ ms \<and> list_all (\<lambda>m. \<not> isWaitingMessage m) ms"
proof (cases "contexts s k")
  assume acc: "acceptsPosts e"
  case None
  then show ?thesis by (simp add: generateKBA_absent)
next
  assume acc: "acceptsPosts e"
  case (Some c)
  show ?thesis
  proof (cases "jiraTicket c")
    case None
    with Some show ?thesis by (simp add: generateKBA_no_ticket)
  next
    case (Some t)
    note c = \<open>contexts s k = Some c\<close> Some
    show ?thesis
    proof (cases "generateKBAContent e t (userAnswers c)")
      case (Inl err)
      from generateKBA_failure(2) [OF acc c Inl] show ?thesis by simp
    next
      case (Inr cnt)
      from generateKBA_success(2) [OF acc c Inr] show ?thesis
        by (simp add: not_waiting_art not_waiting_uploads del: isWaitingMessage.simps(1))
    qed
  qed
qed

lemma generations_append [simp]:
  "calls s' = calls s @ cs \<Longrightarrow> generations s' = generations s + length (filter isGenerateContent cs)"
  by (simp add: generations_def)

lemma renderEach_trace:
  "filter isGenerateContent (snd (snd (renderEach e st p oss (imgs, tr)))) = filter isGenerateContent tr"
  by (induction oss arbitrary: imgs tr) (simp_all add: Let_def split: sum.splits)

lemma generateImagesFrom_trace:
  "filter isGenerateContent (snd (generateImagesFrom e sts acc)) = filter isGenerateContent (snd acc)"
proof (induction sts arbitrary: acc)
  case Nil
  show ?case by simp
next
  case (Cons st sts)
  obtain imgs tr where acc: "acc = (imgs, tr)" by (cases acc)
  show ?case
  proof (cases "truthy (imagePrompt st) \<and> osType st \<noteq> None")
    case False
    then show ?thesis using Cons by auto
  next
    case True
    let ?r = "renderEach e st (case imagePrompt st of Some p \<Rightarrow> p | None \<Rightarrow> [])
                (case osType st of Some t \<Rightarrow> osTypes t | None \<Rightarrow> []) (imgs, tr)"
    obtain b imgs' tr' where r: "?r = (b, imgs', tr')" by (cases ?r)
    have t: "filter isGenerateContent tr' = filter isGenerateContent tr"
      using renderEach_trace [of e st _ _ imgs tr] r by (metis snd_conv)
    show ?thesis using True acc r t Cons [of "(imgs', tr')"] Cons [of "(imgs', tr' @ [Sleep 1000])"]
      by (cases b) simp_all
  qed
qed

lemma generateImages_no_generation [simp]:
  "filter isGenerateContent (snd (generateImages e cnt)) = []"
  using generateImagesFrom_trace [of e "steps cnt" "([], [])"] by (simp add: generateImages_def)

lemma generateKBA_generations:
  "acceptsPosts e \<Longrightarrow> contexts s k = Some c \<Longrightarrow> jiraTicket c = Some t \<Longrightarrow>
   generations (generateKBA e k s) = generations s + 1"
proof -
  assume acc: "acceptsPosts e" and c: "contexts s k = Some c" "jiraTicket c = Some t"
  show ?thesis
  proof (cases "generateKBAContent e t (userAnswers c)")
    case (Inl err)
    from generateKBA_failure(3) [OF acc c Inl] show ?thesis by simp
  next
    case (Inr cnt)
    from generateKBA_success(3) [OF acc c Inr] show ?thesis by simp
  qed
qed

lemma generateKBA_outcome:
  "acceptsPosts e \<Longrightarrow> contexts s k = Some c \<Longrightarrow> jiraTicket c = Some t \<Longrightarrow>
   (\<exists>err. generateKBAContent e t (userAnswers c) = Inl err \<and>
          contexts (generateKBA e k s) = (contexts s)(k := None)) \<or>
   (\<exists>cnt. generateKBAContent e t (userAnswers c) = Inr cnt \<and>
          contexts (generateKBA e k s) = (contexts s)(k \<mapsto> reviewed e c t cnt))"
  by (cases "generateKBAContent e t (userAnswers c)")
     (auto simp: generateKBA_failure(1) generateKBA_success(1))

text \<open>Whether or not the chat platform accepts the posts: nothing that \<open>generateKBA\<close>
  or a start without questions posts is a question list or a count of awaited answers, and
  neither leaves the thread in the asking-questions stage.\<close>

lemma quiet_refl [simp]: "quiet s s"
  by (simp add: quiet_def)

lemma quiet_trans: "quiet s s' \<Longrightarrow> quiet s' s'' \<Longrightarrow> quiet s s''"
  by (auto simp: quiet_def)

lemma quiet_outbox: "outbox s' = outbox s \<Longrightarrow> quiet s s'"
  by (simp add: quiet_def)

lemma quiet_chatPost: "\<not> isWaitingMessage m \<Longrightarrow> quiet s (snd (chatPost e m s))"
  by (simp add: quiet_def chatPost_def split: option.splits)

lemma quiet_sendMessage:
  "\<not> isWaitingMessage (ChatPost ch ts text) \<Longrightarrow> quiet s (snd (sendMessage e ch ts text s))"
  unfolding sendMessage_def by (rule quiet_chatPost)

lemma quiet_andThen:
  "quiet s (snd r) \<Longrightarrow> (\<And>s1. quiet s1 (snd (f s1))) \<Longrightarrow> quiet s (snd (andThen r f))"
  by (cases r) (auto simp: andThen_def intro: quiet_trans split: option.splits)

lemma quiet_tryCatch:
  "quiet s (snd r) \<Longrightarrow> (\<And>err s1. quiet s1 (snd (h err s1))) \<Longrightarrow> quiet s (snd (tryCatch r h))"
  by (cases r) (auto simp: tryCatch_def intro: quiet_trans split: option.splits)

lemma quiet_uploadPreviews: "quiet s (uploadPreviews e ch ts imgs s)"
  by (simp add: quiet_def uploadPreviews_outbox not_waiting_uploads)

lemma quiet_showPreview: "quiet s (snd (showPreview e k s))"
proof (cases "contexts s k")
  case None
  then show ?thesis by (simp add: showPreview_def)
next
  case (Some c)
  show ?thesis
  proof (cases "kbaDraft c")
    case None
    with Some show ?thesis by (simp add: showPreview_def)
  next
    case (Some d)
    have "quiet s (snd (andThen (sendMessage e (channel c) (threadTs c) (previewText (content d) (images d)) s)
                  (\<lambda>s1. chatPost e (ApprovalRequest (channel c) (threadTs c) k)
                           (uploadPreviews e (channel c) (threadTs c) (images d) s1))))"
    proof (rule quiet_andThen)
      show "quiet s (snd (sendMessage e (channel c) (threadTs c) (previewText (content d) (images d)) s))"
        by (rule quiet_sendMessage) (rule not_waiting_preview)
      fix s1
      show "quiet s1 (snd (chatPost e (ApprovalRequest (channel c) (threadTs c) k)
                           (uploadPreviews e (channel c) (threadTs c) (images d) s1)))"
        by (rule quiet_trans [OF quiet_uploadPreviews]) (rule quiet_chatPost, simp)
    qed
    with \<open>contexts s k = Some c\<close> Some show ?thesis by (simp add: showPreview_def Let_def)
  qed
qed

lemma quiet_generateKBA_catch: "quiet s (snd (generateKBA_catch e k c err s))"
  unfolding generateKBA_catch_def
  by (rule quiet_andThen [OF quiet_sendMessage]) (simp_all add: quiet_outbox)

lemma quiet_generateKBA_try: "quiet s (snd (generateKBA_try e k c t s))"
  unfolding generateKBA_try_def
proof (rule quiet_andThen [OF quiet_sendMessage])
  show "\<not> isWaitingMessage (ChatPost (channel c) (threadTs c) '':pencil: Generating KBA content...'')"
    by simp
  fix s2
  let ?s3 = "logCall (GenerateContent t (userAnswers c)) s2"
  show "quiet s2 (snd (let s3 = logCall (GenerateContent t (userAnswers c)) s2
           in case generateKBAContent e t (userAnswers c) of
                Inl err \<Rightarrow> (Some err, s3)
              | Inr cnt \<Rightarrow>
                  (let stepsWithImages = filter (\<lambda>st. truthy (imagePrompt st)) (steps cnt)
                   in andThen
                        (if length stepsWithImages > 0
                         then sendMessage e (channel c) (threadTs c)
                                ('':art: Generating '' @ showNat (length stepsWithImages) @
                                 '' screenshot mockup(s)... This may take a minute.'') s3
                         else (None, s3))
                        (\<lambda>s4.
                           (let generated = (if length stepsWithImages > 0
                                             then generateImages e cnt else ([], []));
                                s5 = s4\<lparr>calls := calls s4 @ snd generated\<rparr>;
                                c2 = c\<lparr>kbaDraft := Some \<lparr>draftTicket = t, content = cnt,
                                                           images = fst generated,
                                                           confluencePageId = None\<rparr>,
                                        stage := Review\<rparr>;
                                s6 = putContext k c2 s5
                            in showPreview e k s6)))))"
  proof (cases "generateKBAContent e t (userAnswers c)")
    case (Inl err)
    then show ?thesis by (simp add: quiet_outbox)
  next
    case (Inr cnt)
    let ?n = "length (filter (\<lambda>st. truthy (imagePrompt st)) (steps cnt))"
    have b: "quiet s4 (snd (showPreview e k (putContext k c2 (s4\<lparr>calls := cs\<rparr>))))" for s4 c2 cs
      by (rule quiet_trans [OF _ quiet_showPreview]) (simp add: quiet_outbox)
    show ?thesis
    proof (cases "?n > 0")
      case True
      have a: "quiet s2 (snd (sendMessage e ch' ts' text' ?s3))"
        if "\<not> isWaitingMessage (ChatPost ch' ts' text')" for ch' ts' text'
        by (rule quiet_trans [of s2 ?s3]) (simp add: quiet_outbox, rule quiet_sendMessage, rule that)
      from Inr True show ?thesis
        by (simp add: Let_def del: isWaitingMessage.simps)
           (rule quiet_andThen, rule a, simp, rule b)
    next
      case False
      have "quiet s2 (snd (showPreview e k (putContext k c2 ?s3)))" for c2
        by (rule quiet_trans [OF _ quiet_showPreview]) (simp add: quiet_outbox)
      with Inr False show ?thesis by (simp add: Let_def)
    qed
  qed
qed

lemma quiet_generateKBA_call: "quiet s (snd (generateKBA_call e k s))"
proof (cases "contexts s k")
  case None
  then show ?thesis by (simp add: generateKBA_call_def)
next
  case (Some c)
  show ?thesis
  proof (cases "jiraTicket c")
    case None
    with Some show ?thesis by (simp add: generateKBA_call_def)
  next
    case (Some t)
    have "quiet s (snd (tryCatch (generateKBA_try e k (c\<lparr>stage := Generating\<rparr>) t
                                   (putContext k (c\<lparr>stage := Generating\<rparr>) s))
                         (generateKBA_catch e k (c\<lparr>stage := Generating\<rparr>))))"
      by (rule quiet_tryCatch [OF quiet_trans [OF _ quiet_generateKBA_try]])
         (simp_all add: quiet_outbox quiet_generateKBA_catch)
    with \<open>contexts s k = Some c\<close> Some show ?thesis by (simp add: generateKBA_call_def Let_def)
  qed
qed


lemma quiet_sendMessage_after:
  "outbox s' = outbox s \<Longrightarrow> \<not> isWaitingMessage (ChatPost ch ts text) \<Longrightarrow>
   quiet s (snd (sendMessage e ch ts text s'))"
  by (rule quiet_trans [of s s']) (simp add: quiet_outbox, rule quiet_sendMessage)

lemma quiet_generateKBA_call_after:
  "outbox s' = outbox s \<Longrightarrow> quiet s (snd (generateKBA_call e k s'))"
  by (rule quiet_trans [of s s']) (simp add: quiet_outbox, rule quiet_generateKBA_call)

lemma quiet_startWorkflow_catch: "quiet s (snd (startWorkflow_catch e ch ts err s))"
  unfolding startWorkflow_catch_def
  by (rule quiet_andThen [OF quiet_sendMessage]) (simp_all add: quiet_outbox)

lemma quiet_startWorkflow:
  assumes "extractTicketKey jiraUrl = Some tk" "getTicket e tk = Inr t"
    and "generateClarifyingQuestions e t = Inr []"
  shows "quiet s (startWorkflow e ch ts uid jiraUrl s)"
proof -
  have "quiet s (snd (startWorkflow_try e ch ts uid jiraUrl s))"
    using assms extractTicketKey_nonempty [OF assms(1)]
    apply (simp add: startWorkflow_try_def Let_def del: isWaitingMessage.simps)
    apply (rule quiet_andThen)
     apply (rule quiet_sendMessage, simp)
    apply (rule quiet_andThen)
     apply (rule quiet_sendMessage_after, simp, simp add: foundTicketText_def)
    apply (rule quiet_generateKBA_call_after, simp)
    done
  then show ?thesis
    unfolding startWorkflow_def startWorkflow_call_def
    by (rule quiet_tryCatch) (rule quiet_startWorkflow_catch)
qed

lemma stageAt_frame: "contexts s' = contexts s \<Longrightarrow> stageAt s' k = stageAt s k"
  by (simp add: stageAt_def)

lemma stageAt_sendMessage [simp]: "stageAt (snd (sendMessage e ch ts text s)) k = stageAt s k"
  by (simp add: stageAt_def)

lemma stageAt_chatPost [simp]: "stageAt (snd (chatPost e m s)) k = stageAt s k"
  by (simp add: stageAt_def)

lemma stageAt_showPreview [simp]: "stageAt (snd (showPreview e k' s)) k = stageAt s k"
  by (simp add: stageAt_def)

lemma generateKBA_catch_notAsking:
  "stageAt s k \<noteq> Some AskingQuestions \<Longrightarrow>
   stageAt (snd (generateKBA_catch e k c err s)) k \<noteq> Some AskingQuestions"
  unfolding generateKBA_catch_def
  by (rule andThen_inv [where P = "\<lambda>s. stageAt s k \<noteq> Some AskingQuestions"])
     (simp_all add: stageAt_def)

lemma generateKBA_try_notAsking:
  "stageAt s k \<noteq> Some AskingQuestions \<Longrightarrow>
   stageAt (snd (generateKBA_try e k c t s)) k \<noteq> Some AskingQuestions"
  unfolding generateKBA_try_def
proof (rule andThen_inv [where P = "\<lambda>s. stageAt s k \<noteq> Some AskingQuestions"])
  assume "stageAt s k \<noteq> Some AskingQuestions"
  then show "stageAt (snd (sendMessage e (channel c) (threadTs c)
      '':pencil: Generating KBA content...'' s)) k \<noteq> Some AskingQuestions" by simp
next
  fix s2 assume p: "stageAt s2 k \<noteq> Some AskingQuestions"
  show "stageAt (snd (let s3 = logCall (GenerateContent t (userAnswers c)) s2
           in case generateKBAContent e t (userAnswers c) of
                Inl err \<Rightarrow> (Some err, s3)
              | Inr cnt \<Rightarrow>
                  (let stepsWithImages = filter (\<lambda>st. truthy (imagePrompt st)) (steps cnt)
                   in andThen
                        (if length stepsWithImages > 0
                         then sendMessage e (channel c) (threadTs c)
                                ('':art: Generating '' @ showNat (length stepsWithImages) @
                                 '' screenshot mockup(s)... This may take a minute.'') s3
                         else (None, s3))
                        (\<lambda>s4.
                           (let generated = (if length stepsWithImages > 0
                                             then generateImages e cnt else ([], []));
                                s5 = s4\<lparr>calls := calls s4 @ snd generated\<rparr>;
                                c2 = c\<lparr>kbaDraft := Some \<lparr>draftTicket = t, content = cnt,
                                                           images = fst generated,
                                                           confluencePageId = None\<rparr>,
                                        stage := Review\<rparr>;
                                s6 = putContext k c2 s5
                            in showPreview e k s6))))) k \<noteq> Some AskingQuestions"
  proof (cases "generateKBAContent e t (userAnswers c)")
    case (Inl err)
    with p show ?thesis by (simp add: stageAt_def)
  next
    case (Inr cnt)
    have b: "stageAt (snd (showPreview e k (putContext k (c0\<lparr>stage := Review\<rparr>) s5))) k \<noteq>
               Some AskingQuestions" for c0 s5
      by (simp add: stageAt_def)
    have a: "stageAt (snd (andThen r (\<lambda>s4. showPreview e k (putContext k (c0\<lparr>stage := Review\<rparr>) (F s4))))) k
               \<noteq> Some AskingQuestions"
      if "stageAt (snd r) k \<noteq> Some AskingQuestions" for r c0 F
      using that
      by (rule andThen_inv [where P = "\<lambda>s. stageAt s k \<noteq> Some AskingQuestions"]) (rule b)
    show ?thesis
    proof (cases "length (filter (\<lambda>st. truthy (imagePrompt st)) (steps cnt)) > 0")
      case True
      with Inr p show ?thesis
        by (simp add: Let_def) (rule a, simp add: stageAt_def)
    next
      case False
      with Inr show ?thesis by (simp add: Let_def stageAt_def)
    qed
  qed
qed

lemma generateKBA_call_notAsking:
  assumes "contexts s k = Some c" "jiraTicket c = Some t"
  shows "stageAt (snd (generateKBA_call e k s)) k \<noteq> Some AskingQuestions"
proof -
  let ?c1 = "c\<lparr>stage := Generating\<rparr>"
  have "stageAt (putContext k ?c1 s) k \<noteq> Some AskingQuestions" by (simp add: stageAt_def)
  then have "stageAt (snd (generateKBA_try e k ?c1 t (putContext k ?c1 s))) k \<noteq> Some AskingQuestions"
    by (rule generateKBA_try_notAsking)
  then have "stageAt (snd (tryCatch (generateKBA_try e k ?c1 t (putContext k ?c1 s))
                            (generateKBA_catch e k ?c1))) k \<noteq> Some AskingQuestions"
    by (rule tryCatch_inv [where P = "\<lambda>s. stageAt s k \<noteq> Some AskingQuestions"])
       (rule generateKBA_catch_notAsking)
  with assms show ?thesis by (simp add: generateKBA_call_def Let_def)
qed

lemma startWorkflow_notAsking:
  assumes "extractTicketKey jiraUrl = Some tk" "getTicket e tk = Inr t"
    and "generateClarifyingQuestions e t = Inr []"
    and "stageAt s (contextKey ch ts) \<noteq> Some AskingQuestions"
  shows "stageAt (startWorkflow e ch ts uid jiraUrl s) (contextKey ch ts) \<noteq> Some AskingQuestions"
proof -
  let ?k = "contextKey ch ts"
  let ?P = "\<lambda>s. stageAt s ?k \<noteq> Some AskingQuestions"
  have g: "?P (snd (generateKBA_call e ?k
                      (putContext ?k (started ch ts uid t []) s5)))" for s5
    by (rule generateKBA_call_notAsking [where c = "started ch ts uid t []"])
       (simp_all add: started_def)
  have "?P (snd (startWorkflow_try e ch ts uid jiraUrl s))"
    using assms extractTicketKey_nonempty [OF assms(1)]
    apply (simp add: startWorkflow_try_def Let_def)
    apply (rule andThen_inv [where P = ?P])
     apply simp
    apply (rule andThen_inv [where P = ?P])
     apply (simp add: stageAt_def)
    using g apply (simp add: started_def)
    done
  then show ?thesis
    unfolding startWorkflow_def startWorkflow_call_def
    apply (rule tryCatch_inv [where P = ?P])
    unfolding startWorkflow_catch_def
    apply (rule andThen_inv [where P = ?P])
     apply (simp_all add: stageAt_def)
    done
qed

section \<open>No questions: generation starts at once\<close>

lemma startWorkflow_no_questions_accepted:
  assumes "acceptsPosts e" "extractTicketKey jiraUrl = Some tk" "getTicket e tk = Inr t"
    and "generateClarifyingQuestions e t = Inr []"
  shows "take 3 (newCalls s (startWorkflow e ch ts uid jiraUrl s)) =
           [FetchIssue tk, AskQuestions t, GenerateContent t []] \<and>
         generations (startWorkflow e ch ts uid jiraUrl s) = generations s + 1 \<and>
         list_all (\<lambda>m. \<not> isWaitingMessage m) (newPosts s (startWorkflow e ch ts uid jiraUrl s)) \<and>
         stageAt (startWorkflow e ch ts uid jiraUrl s) (contextKey ch ts) \<noteq> Some AskingQuestions \<and>
         stageAt (startWorkflow e ch ts uid jiraUrl s) (contextKey ch ts) =
           (case generateKBAContent e t [] of Inl err \<Rightarrow> None | Inr cnt \<Rightarrow> Some Review)"
proof -
  let ?k = "contextKey ch ts"
  let ?c = "started ch ts uid t []"
  from startWorkflow_no_questions [OF assms, of ch ts uid s] obtain s6 where
    s6: "startWorkflow e ch ts uid jiraUrl s = generateKBA e ?k s6"
      "contexts s6 = (contexts s)(?k \<mapsto> ?c)"
      "outbox s6 = outbox s @ [analyzingPost ch ts, ChatPost ch ts (foundTicketText t)]"
      "calls s6 = calls s @ [FetchIssue tk, AskQuestions t]" by blast
  have c: "contexts s6 ?k = Some ?c" "jiraTicket ?c = Some t"
    using s6 by (simp_all add: started_def)
  have ua: "userAnswers ?c = []" by (simp add: started_def)
  have calls: "\<exists>cs. calls (generateKBA e ?k s6) = calls s6 @ GenerateContent t [] # cs"
  proof (cases "generateKBAContent e t (userAnswers ?c)")
    case (Inl err)
    from generateKBA_failure(3) [OF assms(1) c Inl] ua show ?thesis by simp
  next
    case (Inr cnt)
    from generateKBA_success(3) [OF assms(1) c Inr] ua show ?thesis by simp
  qed
  then obtain cs where "calls (startWorkflow e ch ts uid jiraUrl s) =
      calls s @ ([FetchIssue tk, AskQuestions t, GenerateContent t []] @ cs)"
    using s6 by auto
  then have "newCalls s (startWorkflow e ch ts uid jiraUrl s) =
      [FetchIssue tk, AskQuestions t, GenerateContent t []] @ cs"
    by (rule newCalls_append)
  then have p1: "take 3 (newCalls s (startWorkflow e ch ts uid jiraUrl s)) =
           [FetchIssue tk, AskQuestions t, GenerateContent t []]" by simp
  have "generations s6 = generations s"
    using s6(4) by simp
  then have p2: "generations (startWorkflow e ch ts uid jiraUrl s) = generations s + 1"
    using generateKBA_generations [OF assms(1) c] s6(1) by simp
  from generateKBA_posts [OF assms(1), of ?k s6] obtain ms where
    ms: "outbox (generateKBA e ?k s6) = outbox s6 @ ms" "list_all (\<lambda>m. \<not> isWaitingMessage m) ms"
    by blast
  have "outbox (startWorkflow e ch ts uid jiraUrl s) =
      outbox s @ ([analyzingPost ch ts, ChatPost ch ts (foundTicketText t)] @ ms)"
    using s6 ms by simp
  then have "newPosts s (startWorkflow e ch ts uid jiraUrl s) =
      [analyzingPost ch ts, ChatPost ch ts (foundTicketText t)] @ ms"
    by (rule newPosts_append)
  then have p3: "list_all (\<lambda>m. \<not> isWaitingMessage m) (newPosts s (startWorkflow e ch ts uid jiraUrl s))"
    using ms(2) by (simp add: analyzingPost_def foundTicketText_def)
  have p5: "stageAt (startWorkflow e ch ts uid jiraUrl s) ?k =
           (case generateKBAContent e t [] of Inl err \<Rightarrow> None | Inr cnt \<Rightarrow> Some Review)"
    using generateKBA_outcome [OF assms(1) c] s6(1) ua
    by (auto simp: stageAt_def reviewed_def)
  then have p4: "stageAt (startWorkflow e ch ts uid jiraUrl s) ?k \<noteq> Some AskingQuestions"
    by (simp split: sum.splits)
  from p1 p2 p3 p4 p5 show ?thesis by blast
qed

text \<open>
  Claim C8. When the ticket is parsed and fetched and the question generation returns the
  empty list, \<open>startWorkflow\<close> goes on to the content generation in the same call. Whether
  or not the chat platform accepts the posts of the call, none of the messages posted lists
  questions or counts awaited answers, and a thread that was not in the asking-questions
  stage before the call is not in it afterwards. When the posts are accepted, the content
  request follows the question request, it is issued exactly once, and at the end the
  thread is not in the asking-questions stage: it is in review, or removed when the
  generation failed.
\<close>

theorem no_questions_generates_at_once:
  assumes "extractTicketKey jiraUrl = Some tk" "getTicket e tk = Inr t"
    and "generateClarifyingQuestions e t = Inr []"
  shows "list_all (\<lambda>m. \<not> isWaitingMessage m) (newPosts s (startWorkflow e ch ts uid jiraUrl s)) \<and>
         (stageAt s (contextKey ch ts) \<noteq> Some AskingQuestions \<longrightarrow>
            stageAt (startWorkflow e ch ts uid jiraUrl s) (contextKey ch ts) \<noteq> Some AskingQuestions) \<and>
         (acceptsPosts e \<longrightarrow>
            take 3 (newCalls s (startWorkflow e ch ts uid jiraUrl s)) =
              [FetchIssue tk, AskQuestions t, GenerateContent t []] \<and>
            generations (startWorkflow e ch ts uid jiraUrl s) = generations s + 1 \<and>
            stageAt (startWorkflow e ch ts uid jiraUrl s) (contextKey ch ts) \<noteq> Some AskingQuestions \<and>
            stageAt (startWorkflow e ch ts uid jiraUrl s) (contextKey ch ts) =
              (case generateKBAContent e t [] of Inl err \<Rightarrow> None | Inr cnt \<Rightarrow> Some Review))"
proof -
  from quiet_startWorkflow [OF assms, of s ch ts uid] obtain ms where
    "outbox (startWorkflow e ch ts uid jiraUrl s) = outbox s @ ms"
    "list_all (\<lambda>m. \<not> isWaitingMessage m) ms" by (auto simp: quiet_def)
  then have u1: "list_all (\<lambda>m. \<not> isWaitingMessage m)
      (newPosts s (startWorkflow e ch ts uid jiraUrl s))"
    by (simp add: newPosts_def)
  have u2: "stageAt s (contextKey ch ts) \<noteq> Some AskingQuestions \<longrightarrow>
            stageAt (startWorkflow e ch ts uid jiraUrl s) (contextKey ch ts) \<noteq> Some AskingQuestions"
    using startWorkflow_notAsking [OF assms] by blast
  have p: "acceptsPosts e \<longrightarrow>
            take 3 (newCalls s (startWorkflow e ch ts uid jiraUrl s)) =
              [FetchIssue tk, AskQuestions t, GenerateContent t []] \<and>
            generations (startWorkflow e ch ts uid jiraUrl s) = generations s + 1 \<and>
            stageAt (startWorkflow e ch ts uid jiraUrl s) (contextKey ch ts) \<noteq> Some AskingQuestions \<and>
            stageAt (startWorkflow e ch ts uid jiraUrl s) (contextKey ch ts) =
              (case generateKBAContent e t [] of Inl err \<Rightarrow> None | Inr cnt \<Rightarrow> Some Review)"
    using startWorkflow_no_questions_accepted [OF _ assms, of s ch ts uid] by blast
  from u1 u2 p show ?thesis by blast
qed

theorem no_questions_generates_at_once_witness:
  "extractTicketKey ''https://host/browse/TECH-456'' = Some ''TECH-456'' \<and>
   getTicket noQuestionsEnv ''TECH-456'' = Inr demoTicket \<and>
   generateClarifyingQuestions noQuestionsEnv demoTicket = Inr [] \<and>
   stageAt initialState (contextKey ''C1'' ''17.1'') \<noteq> Some AskingQuestions \<and>
   acceptsPosts noQuestionsEnv \<and>
   list_all (\<lambda>m. \<not> isWaitingMessage m)
     (newPosts initialState
        (startWorkflow noQuestionsEnv ''C1'' ''17.1'' ''U1'' ''https://host/browse/TECH-456'' initialState)) \<and>
   take 3 (newCalls initialState
             (startWorkflow noQuestionsEnv ''C1'' ''17.1'' ''U1'' ''https://host/browse/TECH-456'' initialState)) =
     [FetchIssue ''TECH-456'', AskQuestions demoTicket, GenerateContent demoTicket []] \<and>
   generations (startWorkflow noQuestionsEnv ''C1'' ''17.1'' ''U1'' ''https://host/browse/TECH-456'' initialState) = 1 \<and>
   stageAt (startWorkflow noQuestionsEnv ''C1'' ''17.1'' ''U1'' ''https://host/browse/TECH-456'' initialState)
     ''C1-17.1'' = Some Review"
proof -
  have a: "acceptsPosts noQuestionsEnv"
    by (simp add: acceptsPosts_def noQuestionsEnv_def demoEnv_def)
  have g: "getTicket noQuestionsEnv ''TECH-456'' = Inr demoTicket"
    by (simp add: getTicket_def noQuestionsEnv_def demoEnv_def)
  have q: "generateClarifyingQuestions noQuestionsEnv demoTicket = Inr []"
    by (simp add: noQuestionsEnv_def)
  have c: "generateKBAContent noQuestionsEnv demoTicket [] = Inr plainContent"
    by (simp add: noQuestionsEnv_def demoEnv_def)
  have k: "contextKey ''C1'' ''17.1'' = ''C1-17.1''" by (simp add: contextKey_def)
  have z: "generations initialState = 0" by (simp add: generations_def initialState_def)
  have n: "stageAt initialState (contextKey ''C1'' ''17.1'') \<noteq> Some AskingQuestions"
    by (simp add: stageAt_def initialState_def)
  note t = no_questions_generates_at_once [OF parse_demo g q, of initialState "''C1''" "''17.1''" "''U1''"]
  from t have r0: "list_all (\<lambda>m. \<not> isWaitingMessage m)
     (newPosts initialState
        (startWorkflow noQuestionsEnv ''C1'' ''17.1'' ''U1'' ''https://host/browse/TECH-456'' initialState))"
    by blast
  from t a have r1: "take 3 (newCalls initialState
             (startWorkflow noQuestionsEnv ''C1'' ''17.1'' ''U1'' ''https://host/browse/TECH-456'' initialState)) =
     [FetchIssue ''TECH-456'', AskQuestions demoTicket, GenerateContent demoTicket []]" by blast
  from t a z have r2: "generations (startWorkflow noQuestionsEnv ''C1'' ''17.1'' ''U1''
      ''https://host/browse/TECH-456'' initialState) = 1" by simp
  from t a c k have r3: "stageAt (startWorkflow noQuestionsEnv ''C1'' ''17.1'' ''U1''
      ''https://host/browse/TECH-456'' initialState) ''C1-17.1'' = Some Review" by simp
  from parse_demo g q n a r0 r1 r2 r3 show ?thesis by blast
qed

section \<open>approveAndPublish, case by case\<close>

lemma approveAndPublish_fails:
  assumes "acceptsPosts e" "contexts s k = Some c" "kbaDraft c = Some d" "jiraTicket c = Some t"
    and "confluencePost e (kbaPage e (content d) (images d) (key t)) = Inl err"
  shows "approveAndPublish e k uid s =
     post (ChatPost (channel c) (threadTs c)
       ('':x: Error publishing to Confluence: '' @ ''Failed to create Confluence page: '' @ message err))
       (logCall (CreatePage (kbaPage e (content d) (images d) (key t)))
          (post (ChatPost (channel c) (threadTs c) '':rocket: Publishing KBA to Confluence...'') s))"
  using assms
  by (simp add: approveAndPublish_def approveAndPublish_call_def approveAndPublish_try_def Let_def
        createKBAPage_fails)

text \<open>Whether or not the posts are accepted, a failed page creation leaves the context map
  as it was, and every request of an approval belongs to publishing.\<close>

lemma approveAndPublish_fails_contexts:
  assumes "contexts s k = Some c" "kbaDraft c = Some d" "jiraTicket c = Some t"
    and "confluencePost e (kbaPage e (content d) (images d) (key t)) = Inl err"
  shows "contexts (approveAndPublish e k uid s) = contexts s"
proof -
  from sendMessage_cases [of e "channel c" "threadTs c" "'':rocket: Publishing KBA to Confluence...''" s]
  show ?thesis
  proof
    assume "sendMessage e (channel c) (threadTs c) '':rocket: Publishing KBA to Confluence...'' s =
        (None, post (ChatPost (channel c) (threadTs c) '':rocket: Publishing KBA to Confluence...'') s)"
    with assms show ?thesis
      by (simp add: approveAndPublish_def approveAndPublish_call_def approveAndPublish_try_def
            Let_def createKBAPage_fails)
  next
    assume "\<exists>err. sendMessage e (channel c) (threadTs c)
        '':rocket: Publishing KBA to Confluence...'' s = (Some err, s)"
    with assms show ?thesis
      by (auto simp: approveAndPublish_def approveAndPublish_call_def approveAndPublish_try_def
            Let_def)
  qed
qed

lemma approveAndPublish_publishing:
  "\<exists>cs. calls (approveAndPublish e k uid s) = calls s @ cs \<and> list_all isPublishing cs"
proof (cases "contexts s k")
  case None
  then show ?thesis by (simp add: approveAndPublish_def approveAndPublish_call_def)
next
  case (Some c)
  show ?thesis
  proof (cases "kbaDraft c")
    case None
    with Some show ?thesis by (simp add: approveAndPublish_def approveAndPublish_call_def)
  next
    case (Some d)
    note c = \<open>contexts s k = Some c\<close> Some
    let ?rocket = "'':rocket: Publishing KBA to Confluence...''"
    from sendMessage_cases [of e "channel c" "threadTs c" ?rocket s]
    show ?thesis
    proof
      assume rej: "\<exists>err. sendMessage e (channel c) (threadTs c) ?rocket s = (Some err, s)"
      with c have "calls (approveAndPublish e k uid s) = calls s"
        by (auto simp: approveAndPublish_def approveAndPublish_call_def approveAndPublish_try_def
              Let_def)
      then show ?thesis by simp
    next
      let ?s1 = "post (ChatPost (channel c) (threadTs c) ?rocket) s"
      assume acc: "sendMessage e (channel c) (threadTs c) ?rocket s = (None, ?s1)"
      show ?thesis
      proof (cases "jiraTicket c")
        case None
        with c acc have "calls (approveAndPublish e k uid s) = calls s"
          by (simp add: approveAndPublish_def approveAndPublish_call_def approveAndPublish_try_def
                Let_def)
        then show ?thesis by simp
      next
        case (Some t)
        from createKBAPage_calls [of e "content d" "images d" "key t" ?s1] obtain cs where
          cs: "calls (snd (createKBAPage e (content d) (images d) (key t) ?s1)) =
                 calls ?s1 @ CreatePage (kbaPage e (content d) (images d) (key t)) # cs"
              "list_all isPublishing cs" by blast
        obtain r s2 where r: "createKBAPage e (content d) (images d) (key t) ?s1 = (r, s2)"
          by (cases "createKBAPage e (content d) (images d) (key t) ?s1")
        have "calls (approveAndPublish e k uid s) = calls s2"
        proof (cases r)
          case (Inl err)
          with c acc Some r show ?thesis
            by (simp add: approveAndPublish_def approveAndPublish_call_def approveAndPublish_try_def
                  Let_def)
        next
          case (Inr pageUrl)
          let ?s3 = "putContext k (c\<lparr>stage := Complete\<rparr>) s2"
          let ?msg = "'':white_check_mark: *KBA successfully published!*'' @ newline @ newline @
                         ''View it here: '' @ pageUrl @ newline @ newline @
                         ''Jira Ticket: '' @ JIRA_HOST e @ ''/browse/'' @ key t"
          from sendMessage_cases [of e "channel c" "threadTs c" ?msg ?s3]
          show ?thesis using c acc Some r Inr
            by (auto simp: approveAndPublish_def approveAndPublish_call_def
                  approveAndPublish_try_def Let_def)
        qed
        with cs r have "calls (approveAndPublish e k uid s) =
            calls s @ (CreatePage (kbaPage e (content d) (images d) (key t)) # cs) \<and>
            list_all isPublishing (CreatePage (kbaPage e (content d) (images d) (key t)) # cs)"
          by simp
        then show ?thesis by blast
      qed
    qed
  qed
qed

lemma approveAndPublish_calls:
  assumes "acceptsPosts e" "contexts s k = Some c" "kbaDraft c = Some d" "jiraTicket c = Some t"
  shows "\<exists>cs. calls (approveAndPublish e k uid s) =
            calls s @ CreatePage (kbaPage e (content d) (images d) (key t)) # cs \<and>
          list_all isPublishing cs"
proof -
  let ?s1 = "post (ChatPost (channel c) (threadTs c) '':rocket: Publishing KBA to Confluence...'') s"
  from createKBAPage_calls [of e "content d" "images d" "key t" ?s1] obtain cs where
    cs: "calls (snd (createKBAPage e (content d) (images d) (key t) ?s1)) =
          calls ?s1 @ CreatePage (kbaPage e (content d) (images d) (key t)) # cs"
        "list_all isPublishing cs" by blast
  have "calls (approveAndPublish e k uid s) =
          calls (snd (createKBAPage e (content d) (images d) (key t) ?s1))"
    using assms
    by (cases "createKBAPage e (content d) (images d) (key t) ?s1")
       (auto simp: approveAndPublish_def approveAndPublish_call_def approveAndPublish_try_def
          Let_def split: sum.splits)
  with cs show ?thesis by simp
qed

lemma approveAndPublish_succeeds:
  assumes "acceptsPosts e" "contexts s k = Some c" "kbaDraft c = Some d" "jiraTicket c = Some t"
    and "confluencePost e (kbaPage e (content d) (images d) (key t)) = Inr pid"
  shows "contexts (approveAndPublish e k uid s) = (contexts s)(k \<mapsto> c\<lparr>stage := Complete\<rparr>)"
    and "timers (approveAndPublish e k uid s) = timers s @ [k]"
  using assms
  by (simp_all add: approveAndPublish_def approveAndPublish_call_def approveAndPublish_try_def
        Let_def createKBAPage_def)

lemma isPublishing_not_generation:
  "list_all isPublishing cs \<Longrightarrow> filter isGenerateContent cs = [] \<and> filter isRender cs = []"
proof (induction cs)
  case Nil
  show ?case by simp
next
  case (Cons c cs)
  then show ?case by (cases c) simp_all
qed

section \<open>A failed approval keeps the draft for a retry\<close>

text \<open>
  Claim C5. Take a context in review with its draft. If the page creation fails on approval,
  the context map is what it was (the context is still there, in review, with the same
  draft), whether or not the chat platform accepts the posts; when it accepts them, the
  only request made is the page creation, and the error is posted. A second approval is
  then handled, not ignored: everything it requests belongs to publishing and no content or
  image generation is requested; when its posts are accepted it requests the page creation
  again, and when the page creation now succeeds the context is complete with the same
  draft. A failure of the content generation, in contrast, removes the context once the
  error has been posted.
\<close>

theorem approval_failure_keeps_review:
  assumes "contexts s k = Some c" "stage c = Review" "kbaDraft c = Some d" "jiraTicket c = Some t"
    and "confluencePost e1 (kbaPage e1 (content d) (images d) (key t)) = Inl err"
  shows "contexts (approveAndPublish e1 k u1 s) = contexts s \<and>
         stageAt (approveAndPublish e1 k u1 s) k = Some Review \<and>
         (acceptsPosts e1 \<longrightarrow>
            newCalls s (approveAndPublish e1 k u1 s) =
              [CreatePage (kbaPage e1 (content d) (images d) (key t))] \<and>
            newPosts s (approveAndPublish e1 k u1 s) =
              [ChatPost (channel c) (threadTs c) '':rocket: Publishing KBA to Confluence...'',
               ChatPost (channel c) (threadTs c)
                 ('':x: Error publishing to Confluence: Failed to create Confluence page: '' @
                  message err)]) \<and>
         (\<forall>e2 u2.
            list_all isPublishing
              (newCalls (approveAndPublish e1 k u1 s)
                 (approveAndPublish e2 k u2 (approveAndPublish e1 k u1 s))) \<and>
            generations (approveAndPublish e2 k u2 (approveAndPublish e1 k u1 s)) = generations s \<and>
            filter isRender (newCalls s (approveAndPublish e2 k u2 (approveAndPublish e1 k u1 s))) = [] \<and>
            (acceptsPosts e2 \<longrightarrow>
               take 1 (newCalls (approveAndPublish e1 k u1 s)
                         (approveAndPublish e2 k u2 (approveAndPublish e1 k u1 s))) =
                 [CreatePage (kbaPage e2 (content d) (images d) (key t))] \<and>
               (\<forall>pid. confluencePost e2 (kbaPage e2 (content d) (images d) (key t)) = Inr pid \<longrightarrow>
                  contexts (approveAndPublish e2 k u2 (approveAndPublish e1 k u1 s)) k =
                    Some (c\<lparr>stage := Complete\<rparr>)))) \<and>
         (\<forall>e3 err3. acceptsPosts e3 \<and> generateKBAContent e3 t (userAnswers c) = Inl err3 \<longrightarrow>
            contexts (generateKBA e3 k s) k = None)"
proof -
  let ?s1 = "approveAndPublish e1 k u1 s"
  note c = assms(1,3,4)
  have p1: "contexts ?s1 = contexts s"
    by (rule approveAndPublish_fails_contexts [OF c assms(5)])
  then have p2: "stageAt ?s1 k = Some Review" using assms by (simp add: stageAt_def)
  from approveAndPublish_publishing [of e1 k u1 s] obtain cs1 where
    cs1: "calls ?s1 = calls s @ cs1" "list_all isPublishing cs1" by blast
  have p34: "acceptsPosts e1 \<longrightarrow>
            newCalls s ?s1 = [CreatePage (kbaPage e1 (content d) (images d) (key t))] \<and>
            newPosts s ?s1 =
              [ChatPost (channel c) (threadTs c) '':rocket: Publishing KBA to Confluence...'',
               ChatPost (channel c) (threadTs c)
                 ('':x: Error publishing to Confluence: Failed to create Confluence page: '' @
                  message err)]"
  proof
    assume acc: "acceptsPosts e1"
    note eq = approveAndPublish_fails [OF acc c assms(5), of u1]
    have "calls ?s1 = calls s @ [CreatePage (kbaPage e1 (content d) (images d) (key t))]"
      by (simp add: eq)
    then have a: "newCalls s ?s1 = [CreatePage (kbaPage e1 (content d) (images d) (key t))]"
      by (rule newCalls_append)
    have b: "newPosts s ?s1 =
              [ChatPost (channel c) (threadTs c) '':rocket: Publishing KBA to Confluence...'',
               ChatPost (channel c) (threadTs c)
                 ('':x: Error publishing to Confluence: Failed to create Confluence page: '' @
                  message err)]"
      by (rule newPosts_append) (simp add: eq)
    from a b show "newCalls s ?s1 = [CreatePage (kbaPage e1 (content d) (images d) (key t))] \<and>
            newPosts s ?s1 =
              [ChatPost (channel c) (threadTs c) '':rocket: Publishing KBA to Confluence...'',
               ChatPost (channel c) (threadTs c)
                 ('':x: Error publishing to Confluence: Failed to create Confluence page: '' @
                  message err)]" by blast
  qed
  have c1: "contexts ?s1 k = Some c" using p1 assms(1) by simp
  have p5: "list_all isPublishing (newCalls ?s1 (approveAndPublish e2 k u2 ?s1)) \<and>
            generations (approveAndPublish e2 k u2 ?s1) = generations s \<and>
            filter isRender (newCalls s (approveAndPublish e2 k u2 ?s1)) = [] \<and>
            (acceptsPosts e2 \<longrightarrow>
               take 1 (newCalls ?s1 (approveAndPublish e2 k u2 ?s1)) =
                 [CreatePage (kbaPage e2 (content d) (images d) (key t))] \<and>
               (\<forall>pid. confluencePost e2 (kbaPage e2 (content d) (images d) (key t)) = Inr pid \<longrightarrow>
                  contexts (approveAndPublish e2 k u2 ?s1) k = Some (c\<lparr>stage := Complete\<rparr>)))"
    for e2 u2
  proof -
    let ?s2 = "approveAndPublish e2 k u2 ?s1"
    from approveAndPublish_publishing [of e2 k u2 ?s1] obtain cs2 where
      cs2: "calls ?s2 = calls ?s1 @ cs2" "list_all isPublishing cs2" by blast
    from cs2(1) have n: "newCalls ?s1 ?s2 = cs2" by (rule newCalls_append)
    have all: "calls ?s2 = calls s @ (cs1 @ cs2)" using cs1(1) cs2(1) by simp
    then have n2: "newCalls s ?s2 = cs1 @ cs2" by (rule newCalls_append)
    have q2: "list_all isPublishing (newCalls ?s1 ?s2)" using n cs2(2) by simp
    have q3: "generations ?s2 = generations s"
      using all isPublishing_not_generation [OF cs1(2)] isPublishing_not_generation [OF cs2(2)]
      by (simp add: generations_def)
    have q4: "filter isRender (newCalls s ?s2) = []"
      using n2 isPublishing_not_generation [OF cs1(2)] isPublishing_not_generation [OF cs2(2)]
      by simp
    have q15: "acceptsPosts e2 \<longrightarrow>
               take 1 (newCalls ?s1 ?s2) = [CreatePage (kbaPage e2 (content d) (images d) (key t))] \<and>
               (\<forall>pid. confluencePost e2 (kbaPage e2 (content d) (images d) (key t)) = Inr pid \<longrightarrow>
                  contexts ?s2 k = Some (c\<lparr>stage := Complete\<rparr>))"
    proof
      assume acc: "acceptsPosts e2"
      from approveAndPublish_calls [OF acc c1 assms(3,4), of u2] obtain cs where
        cs: "calls ?s2 = calls ?s1 @ CreatePage (kbaPage e2 (content d) (images d) (key t)) # cs"
        by blast
      from cs have "newCalls ?s1 ?s2 = CreatePage (kbaPage e2 (content d) (images d) (key t)) # cs"
        by (rule newCalls_append)
      then have q1: "take 1 (newCalls ?s1 ?s2) =
          [CreatePage (kbaPage e2 (content d) (images d) (key t))]" by simp
      have q5: "\<forall>pid. confluencePost e2 (kbaPage e2 (content d) (images d) (key t)) = Inr pid \<longrightarrow>
               contexts ?s2 k = Some (c\<lparr>stage := Complete\<rparr>)"
        using approveAndPublish_succeeds(1) [OF acc c1 assms(3,4), of _ u2] by simp
      from q1 q5 show "take 1 (newCalls ?s1 ?s2) =
            [CreatePage (kbaPage e2 (content d) (images d) (key t))] \<and>
          (\<forall>pid. confluencePost e2 (kbaPage e2 (content d) (images d) (key t)) = Inr pid \<longrightarrow>
             contexts ?s2 k = Some (c\<lparr>stage := Complete\<rparr>))" by blast
    qed
    from q2 q3 q4 q15 show ?thesis by blast
  qed
  have p6: "\<forall>e3 err3. acceptsPosts e3 \<and> generateKBAContent e3 t (userAnswers c) = Inl err3 \<longrightarrow>
            contexts (generateKBA e3 k s) k = None"
    using generateKBA_failure(1) [OF _ assms(1,4)] by simp
  from p1 p2 p34 p5 p6 show ?thesis by blast
qed

theorem approval_failure_keeps_review_witness:
  "contexts (stateWith reviewContext) ''C1-17.1'' = Some reviewContext \<and>
   stage reviewContext = Review \<and> kbaDraft reviewContext = Some demoDraft \<and>
   jiraTicket reviewContext = Some demoTicket \<and>
   confluencePost publishFailEnv
     (kbaPage publishFailEnv (content demoDraft) (images demoDraft) (key demoTicket)) = Inl failure \<and>
   contexts (approveAndPublish publishFailEnv ''C1-17.1'' ''U1'' (stateWith reviewContext)) =
     contexts (stateWith reviewContext) \<and>
   stageAt (approveAndPublish publishFailEnv ''C1-17.1'' ''U1'' (stateWith reviewContext)) ''C1-17.1'' =
     Some Review \<and>
   acceptsPosts publishFailEnv \<and>
   newCalls (stateWith reviewContext)
     (approveAndPublish publishFailEnv ''C1-17.1'' ''U1'' (stateWith reviewContext)) =
     [CreatePage (kbaPage publishFailEnv (content demoDraft) (images demoDraft) (key demoTicket))] \<and>
   acceptsPosts demoEnv \<and>
   confluencePost demoEnv
     (kbaPage demoEnv (content demoDraft) (images demoDraft) (key demoTicket)) = Inr ''9001'' \<and>
   contexts (approveAndPublish demoEnv ''C1-17.1'' ''U2''
              (approveAndPublish publishFailEnv ''C1-17.1'' ''U1'' (stateWith reviewContext))) ''C1-17.1'' =
     Some (reviewContext\<lparr>stage := Complete\<rparr>) \<and>
   generations (approveAndPublish demoEnv ''C1-17.1'' ''U2''
              (approveAndPublish publishFailEnv ''C1-17.1'' ''U1'' (stateWith reviewContext))) =
     generations (stateWith reviewContext) \<and>
   acceptsPosts contentFailEnv \<and>
   generateKBAContent contentFailEnv demoTicket (userAnswers reviewContext) = Inl failure \<and>
   contexts (generateKBA contentFailEnv ''C1-17.1'' (stateWith reviewContext)) ''C1-17.1'' = None"
proof -
  have h1: "contexts (stateWith reviewContext) ''C1-17.1'' = Some reviewContext"
    by (simp add: stateWith_def)
  have h2: "stage reviewContext = Review" by (simp add: reviewContext_def)
  have h3: "kbaDraft reviewContext = Some demoDraft" by (simp add: reviewContext_def)
  have h4: "jiraTicket reviewContext = Some demoTicket"
    by (simp add: reviewContext_def askingContext_def)
  have h5: "confluencePost publishFailEnv
     (kbaPage publishFailEnv (content demoDraft) (images demoDraft) (key demoTicket)) = Inl failure"
    by (simp add: publishFailEnv_def)
  have h6: "confluencePost demoEnv
     (kbaPage demoEnv (content demoDraft) (images demoDraft) (key demoTicket)) = Inr ''9001''"
    by (simp add: demoEnv_def)
  have h7: "generateKBAContent contentFailEnv demoTicket (userAnswers reviewContext) = Inl failure"
    by (simp add: contentFailEnv_def)
  have a1: "acceptsPosts publishFailEnv"
    by (simp add: acceptsPosts_def publishFailEnv_def demoEnv_def)
  have a2: "acceptsPosts demoEnv" by (simp add: acceptsPosts_def demoEnv_def)
  have a3: "acceptsPosts contentFailEnv"
    by (simp add: acceptsPosts_def contentFailEnv_def noQuestionsEnv_def demoEnv_def)
  note t = approval_failure_keeps_review [OF h1 h2 h3 h4 h5, of "''U1''"]
  from t have r1: "contexts (approveAndPublish publishFailEnv ''C1-17.1'' ''U1'' (stateWith reviewContext)) =
     contexts (stateWith reviewContext)" by blast
  from t have r2: "stageAt (approveAndPublish publishFailEnv ''C1-17.1'' ''U1'' (stateWith reviewContext))
     ''C1-17.1'' = Some Review" by blast
  from t a1 have r0: "newCalls (stateWith reviewContext)
     (approveAndPublish publishFailEnv ''C1-17.1'' ''U1'' (stateWith reviewContext)) =
     [CreatePage (kbaPage publishFailEnv (content demoDraft) (images demoDraft) (key demoTicket))]"
    by blast
  from t a2 h6 have r3: "contexts (approveAndPublish demoEnv ''C1-17.1'' ''U2''
              (approveAndPublish publishFailEnv ''C1-17.1'' ''U1'' (stateWith reviewContext))) ''C1-17.1'' =
     Some (reviewContext\<lparr>stage := Complete\<rparr>)" by blast
  from t have r4: "generations (approveAndPublish demoEnv ''C1-17.1'' ''U2''
              (approveAndPublish publishFailEnv ''C1-17.1'' ''U1'' (stateWith reviewContext))) =
     generations (stateWith reviewContext)" by blast
  from t a3 h7 have r5: "contexts (generateKBA contentFailEnv ''C1-17.1'' (stateWith reviewContext)) ''C1-17.1'' = None"
    by blast
  from h1 h2 h3 h4 h5 h6 h7 a1 a2 a3 r0 r1 r2 r3 r4 r5 show ?thesis by blast
qed

section \<open>Answer keys are distinct\<close>









lemma wellKeyed_Nil [simp]: "wellKeyed []"
  by (simp add: wellKeyed_def answerKeys_def)

section \<open>handleAnswer, case by case\<close>









section \<open>Answers and the start of the generation\<close>





section \<open>An invariant of the runs in which every post is accepted\<close>



















section \<open>An invariant of every run\<close>


lemma stateSound_frame: "contexts s' = contexts s \<Longrightarrow> stateSound s' = stateSound s"
  by (simp add: stateSound_def)



lemma stateSound_sendMessage [simp]:
  "stateSound (snd (sendMessage e ch ts text s)) = stateSound s"
  by (rule stateSound_frame) simp

lemma stateSound_chatPost [simp]: "stateSound (snd (chatPost e m s)) = stateSound s"
  by (rule stateSound_frame) simp

lemma stateSound_showPreview [simp]: "stateSound (snd (showPreview e k s)) = stateSound s"
  by (rule stateSound_frame) simp

lemma stateSound_logCall [simp]: "stateSound (logCall c s) = stateSound s"
  by (rule stateSound_frame) simp

lemma stateSound_calls [simp]: "stateSound (s\<lparr>calls := cs\<rparr>) = stateSound s"
  by (rule stateSound_frame) simp















section \<open>Answers and questions in the asking stage\<close>




section \<open>Render requests and the pacing delay\<close>

text \<open>
  For a content of two steps where only the first carries an image prompt, tagged for both
  platforms: when the first render request does not throw, two render requests are issued,
  for macOS and then for Windows, with nothing between them; and when neither throws, the
  pass is these two requests followed by one delay of 1000 ms. The second step gets no
  request.
\<close>

lemma both_platforms_two_requests_one_delay:
  assumes "steps cnt = [s1, s2]" "imagePrompt s1 = Some p" "p \<noteq> []" "osType s1 = Some Both"
    and "\<not> truthy (imagePrompt s2)"
  shows "(\<forall>u1. imagesGenerate e 0 (enhanceImagePrompt p Mac) = Inr u1 \<longrightarrow>
            filter isRender (snd (generateImages e cnt)) =
              [ImagesGenerate (enhanceImagePrompt p Mac), ImagesGenerate (enhanceImagePrompt p Windows)] \<and>
            take 2 (snd (generateImages e cnt)) =
              [ImagesGenerate (enhanceImagePrompt p Mac), ImagesGenerate (enhanceImagePrompt p Windows)]) \<and>
         (\<forall>u1 u2. imagesGenerate e 0 (enhanceImagePrompt p Mac) = Inr u1 \<and>
            imagesGenerate e 1 (enhanceImagePrompt p Windows) = Inr u2 \<longrightarrow>
            snd (generateImages e cnt) =
              [ImagesGenerate (enhanceImagePrompt p Mac), ImagesGenerate (enhanceImagePrompt p Windows),
               Sleep 1000])"
proof (intro conjI allI impI)
  fix u1 assume a: "imagesGenerate e 0 (enhanceImagePrompt p Mac) = Inr u1"
  show "filter isRender (snd (generateImages e cnt)) =
              [ImagesGenerate (enhanceImagePrompt p Mac), ImagesGenerate (enhanceImagePrompt p Windows)]"
    using assms a
    by (cases "imagesGenerate e 1 (enhanceImagePrompt p Windows)")
       (simp_all add: generateImages_def Let_def)
  show "take 2 (snd (generateImages e cnt)) =
              [ImagesGenerate (enhanceImagePrompt p Mac), ImagesGenerate (enhanceImagePrompt p Windows)]"
    using assms a
    by (cases "imagesGenerate e 1 (enhanceImagePrompt p Windows)")
       (simp_all add: generateImages_def Let_def)
next
  fix u1 u2 assume "imagesGenerate e 0 (enhanceImagePrompt p Mac) = Inr u1 \<and>
            imagesGenerate e 1 (enhanceImagePrompt p Windows) = Inr u2"
  then show "snd (generateImages e cnt) =
              [ImagesGenerate (enhanceImagePrompt p Mac), ImagesGenerate (enhanceImagePrompt p Windows),
               Sleep 1000]"
    using assms by (simp add: generateImages_def Let_def)
qed


text \<open>
  Claim C3 says that a delay separates any two consecutive render requests, also the two
  requests of one step tagged for both platforms. The repository says the same of the bot:
  its setup guide promises a delay of one second between image generations, its read-me
  that images are generated one per second, and the comment on the delay in the code calls
  it a delay to avoid rate limiting. But the delay is the statement after the loop over the
  platforms of a step, not a statement of the loop. In the scenario of the claim, with all
  renders succeeding, the two requests of step 1 follow each other directly, and the only
  delay of 1000 ms comes after the second one.
\<close>

theorem both_platforms_rendered_back_to_back:
  "snd (generateImages demoEnv demoContent) =
     [ImagesGenerate (enhanceImagePrompt ''Network settings window'' Mac),
      ImagesGenerate (enhanceImagePrompt ''Network settings window'' Windows),
      Sleep 1000] \<and>
   \<not> paced (snd (generateImages demoEnv demoContent))"
  by code_simp

section \<open>A render that throws\<close>

text \<open>
  Claim C4 says that a failed render aborts no other render and that the returned list lacks
  only the failed items. The code's own comment says so as well, but the \<^verbatim>\<open>try\<close> encloses
  the whole loop over the platforms of a step. Here the first request (macOS, step 1) throws
  and every later request would succeed: the Windows render of step 1 is never requested and
  the list is empty. The workflow itself goes on: the context reaches review with a draft
  that has no images.
\<close>

theorem failed_render_skips_other_platform:
  "imagesGenerate macFailsEnv 1 (enhanceImagePrompt ''Network settings window'' Windows) =
     Inr (Some ''https://img/1'') \<and>
   generateImages macFailsEnv demoContent =
     ([], [ImagesGenerate (enhanceImagePrompt ''Network settings window'' Mac)]) \<and>
   stageAt (generateKBA macFailsEnv ''C1-17.1'' (stateWith askingContext)) ''C1-17.1'' = Some Review \<and>
   draftImagesAt (generateKBA macFailsEnv ''C1-17.1'' (stateWith askingContext)) ''C1-17.1'' = Some []"
  by code_simp

section \<open>Attachment names in the page body and in the uploads\<close>

lemma attachmentRef_uploadFilename:
  "imageStepNumber img = stepNumber step \<Longrightarrow> attachmentRef step img = uploadFilename img"
  by (simp add: attachmentRef_def uploadFilename_def)

lemma sublist_concat: "x \<in> set xs \<Longrightarrow> sublist r x \<Longrightarrow> sublist r (concat xs)"
proof -
  assume "x \<in> set xs" and r: "sublist r x"
  then obtain ys zs where "xs = ys @ x # zs" by (meson split_list)
  then have "concat xs = concat ys @ x @ concat zs" by simp
  moreover from r obtain ps ss where "x = ps @ r @ ss" by (auto simp: sublist_def)
  ultimately have "concat xs = (concat ys @ ps) @ r @ (ss @ concat zs)" by simp
  then show ?thesis unfolding sublist_def by blast
qed

lemma sublist_imageMarkup: "sublist (refMarkup (attachmentRef step img)) (imageMarkup step img)"
proof -
  have "imageMarkup step img =
      (''<p><strong>'' @ (if imageOsType img = Mac then ''macOS'' else ''Windows'') @
       '':</strong></p>'' @ newline @ ''<p><ac:image><ri:attachment '') @
      refMarkup (attachmentRef step img) @ ('' /></ac:image></p>'' @ newline)"
    by (simp add: imageMarkup_def refMarkup_def)
  then show ?thesis unfolding sublist_def by blast
qed

lemma sublist_stepHTML:
  assumes "img \<in> set imgs" "imageStepNumber img = stepNumber step"
  shows "sublist (refMarkup (attachmentRef step img)) (stepHTML step imgs)"
proof -
  let ?ms = "map (imageMarkup step) (filter (\<lambda>i. imageStepNumber i = stepNumber step) imgs)"
  have "imageMarkup step img \<in> set ?ms" using assms by simp
  from sublist_concat [OF this sublist_imageMarkup]
  obtain ps ss where "concat ?ms = ps @ refMarkup (attachmentRef step img) @ ss"
    by (auto simp: sublist_def)
  then have "stepHTML step imgs = (stepHead step @ ps) @ refMarkup (attachmentRef step img) @ ss"
    by (simp add: stepHTML_def)
  then show ?thesis unfolding sublist_def by blast
qed

lemma sublist_generateConfluenceHTML:
  assumes "step \<in> set (steps cnt)" "img \<in> set imgs" "imageStepNumber img = stepNumber step"
  shows "sublist (refMarkup (uploadFilename img)) (generateConfluenceHTML e cnt imgs jk)"
proof -
  let ?hs = "map (\<lambda>st. stepHTML st imgs) (steps cnt)"
  have "stepHTML step imgs \<in> set ?hs" using assms(1) by simp
  from sublist_concat [OF this sublist_stepHTML [OF assms(2,3)]]
  obtain ps ss where "concat ?hs = ps @ refMarkup (attachmentRef step img) @ ss"
    by (auto simp: sublist_def)
  then have "generateConfluenceHTML e cnt imgs jk =
      (htmlHead e cnt jk @ ps) @ refMarkup (attachmentRef step img) @ (ss @ htmlTail cnt)"
    by (simp add: generateConfluenceHTML_def)
  then have "sublist (refMarkup (attachmentRef step img)) (generateConfluenceHTML e cnt imgs jk)"
    unfolding sublist_def by blast
  then show ?thesis
    using attachmentRef_uploadFilename [OF assms(3)] by simp
qed

lemma uploadImages_attachments_mono:
  "set (attachments s) \<subseteq> set (attachments (uploadImages e pid imgs s))"
proof (induction imgs arbitrary: s)
  case Nil
  show ?case by simp
next
  case (Cons img rest)
  show ?case
  proof (cases "axiosGet e (url img)")
    case (Inl err)
    with Cons [of "logCall (Download (url img)) s"] show ?thesis by simp
  next
    case (Inr buf)
    let ?s2 = "logCall (UploadAttachment pid (uploadFilename img)) (logCall (Download (url img)) s)"
    let ?s3 = "?s2\<lparr>attachments := attachments ?s2 @ [(pid, uploadFilename img)]\<rparr>"
    show ?thesis
    proof (cases "attachmentPost e pid (uploadFilename img)")
      case True
      with Inr Cons [of ?s3] show ?thesis by (auto simp: Let_def)
    next
      case False
      with Inr Cons [of ?s2] show ?thesis by (auto simp: Let_def)
    qed
  qed
qed

lemma uploadImages_stores:
  assumes "img \<in> set imgs" "axiosGet e (url img) = Inr buf" "attachmentPost e pid (uploadFilename img)"
  shows "(pid, uploadFilename img) \<in> set (attachments (uploadImages e pid imgs s))"
  using assms(1)
proof (induction imgs arbitrary: s)
  case Nil
  then show ?case by simp
next
  case (Cons i rest)
  show ?case
  proof (cases "i = img")
    case True
    let ?s2 = "logCall (UploadAttachment pid (uploadFilename img)) (logCall (Download (url img)) s)"
    let ?s3 = "?s2\<lparr>attachments := attachments ?s2 @ [(pid, uploadFilename img)]\<rparr>"
    have "(pid, uploadFilename img) \<in> set (attachments ?s3)" by simp
    with uploadImages_attachments_mono [of ?s3 e pid rest]
    have "(pid, uploadFilename img) \<in> set (attachments (uploadImages e pid rest ?s3))" by blast
    with True assms(2,3) show ?thesis by (simp add: Let_def)
  next
    case False
    with Cons.prems have mem: "img \<in> set rest" by simp
    show ?thesis
    proof (cases "axiosGet e (url i)")
      case (Inl err)
      with Cons.IH [OF mem] show ?thesis by simp
    next
      case (Inr b)
      with Cons.IH [OF mem] show ?thesis by (simp add: Let_def)
    qed
  qed
qed

lemma uploadImages_requests:
  assumes "img \<in> set imgs" "axiosGet e (url img) = Inr buf"
  shows "UploadAttachment pid (uploadFilename img) \<in> set (newCalls s (uploadImages e pid imgs s))"
proof -
  have mono: "set (calls s) \<subseteq> set (calls (uploadImages e pid imgs s))" for s imgs
    using uploadImages_calls [of e pid imgs s] by auto
  have "UploadAttachment pid (uploadFilename img) \<in> set (drop n (calls (uploadImages e pid imgs s)))"
    if "n \<le> length (calls s)" for n
    using assms(1) that
  proof (induction imgs arbitrary: s)
    case Nil
    then show ?case by simp
  next
    case (Cons i rest)
    let ?s1 = "logCall (Download (url i)) s"
    let ?s2 = "logCall (UploadAttachment pid (uploadFilename i)) ?s1"
    let ?s3 = "?s2\<lparr>attachments := attachments ?s2 @ [(pid, uploadFilename i)]\<rparr>"
    show ?case
    proof (cases "i = img")
      case True
      from uploadImages_calls [of e pid rest ?s2] obtain cs where
        cs: "calls (uploadImages e pid rest ?s2) = calls ?s2 @ cs" by blast
      from uploadImages_calls [of e pid rest ?s3] obtain cs' where
        cs': "calls (uploadImages e pid rest ?s3) = calls ?s3 @ cs'" by blast
      show ?thesis
        using True assms(2) cs cs' Cons.prems(2)
        by (cases "attachmentPost e pid (uploadFilename img)") (simp_all add: Let_def)
    next
      case False
      with Cons.prems have mem: "img \<in> set rest" by simp
      have n1: "n \<le> length (calls ?s1)" "n \<le> length (calls ?s2)" "n \<le> length (calls ?s3)"
        using Cons.prems(2) by simp_all
      show ?thesis
        using Cons.IH [OF mem n1(1)] Cons.IH [OF mem n1(2)] Cons.IH [OF mem n1(3)]
        by (cases "axiosGet e (url i)"; cases "attachmentPost e pid (uploadFilename i)")
           (simp_all add: Let_def)
    qed
  qed
  then show ?thesis by (simp add: newCalls_def)
qed

lemma renderEach_steps:
  "\<forall>i\<in>set imgs. imageStepNumber i \<in> N \<Longrightarrow> stepNumber st \<in> N \<Longrightarrow>
   \<forall>i\<in>set (fst (snd (renderEach e st p oss (imgs, tr)))). imageStepNumber i \<in> N"
proof (induction oss arbitrary: imgs tr)
  case Nil
  then show ?case by simp
next
  case (Cons o1 oss)
  show ?case
  proof (cases "imagesGenerate e (length (filter isRender tr)) (enhanceImagePrompt p o1)")
    case (Inl err)
    with Cons.prems show ?thesis by (simp add: Let_def)
  next
    case (Inr u)
    let ?new = "\<lparr>imageStepNumber = stepNumber st, url = (case u of Some x \<Rightarrow> x | None \<Rightarrow> []),
                 imageOsType = o1, prompt = enhanceImagePrompt p o1\<rparr>"
    let ?tr = "tr @ [ImagesGenerate (enhanceImagePrompt p o1)]"
    show ?thesis
    proof (cases "truthy u")
      case True
      have "\<forall>i\<in>set (imgs @ [?new]). imageStepNumber i \<in> N" using Cons.prems by simp
      from Cons.IH [OF this Cons.prems(2), of ?tr] Inr True show ?thesis by (simp add: Let_def)
    next
      case False
      from Cons.IH [OF Cons.prems, of ?tr] Inr False show ?thesis by (simp add: Let_def)
    qed
  qed
qed

lemma generateImagesFrom_steps:
  "\<forall>i\<in>set (fst acc). imageStepNumber i \<in> N \<Longrightarrow> stepNumber ` set sts \<subseteq> N \<Longrightarrow>
   \<forall>i\<in>set (fst (generateImagesFrom e sts acc)). imageStepNumber i \<in> N"
proof (induction sts arbitrary: acc)
  case Nil
  then show ?case by simp
next
  case (Cons st sts)
  obtain imgs tr where acc: "acc = (imgs, tr)" by (cases acc)
  from Cons.prems have sub: "stepNumber ` set sts \<subseteq> N" and st: "stepNumber st \<in> N" by auto
  show ?case
  proof (cases "truthy (imagePrompt st) \<and> osType st \<noteq> None")
    case False
    then show ?thesis using Cons.IH [OF Cons.prems(1) sub] by auto
  next
    case True
    let ?r = "renderEach e st (case imagePrompt st of Some p \<Rightarrow> p | None \<Rightarrow> [])
                (case osType st of Some t \<Rightarrow> osTypes t | None \<Rightarrow> []) (imgs, tr)"
    obtain b imgs' tr' where r: "?r = (b, imgs', tr')" by (cases ?r)
    have "\<forall>i\<in>set (fst (snd ?r)). imageStepNumber i \<in> N"
      using Cons.prems(1) acc st by (intro renderEach_steps) simp_all
    with r have i': "\<forall>i\<in>set imgs'. imageStepNumber i \<in> N" by simp
    show ?thesis
      using True acc r Cons.IH [of "(imgs', tr')", OF _ sub] Cons.IH [of "(imgs', tr' @ [Sleep 1000])", OF _ sub] i'
      by (cases b) simp_all
  qed
qed

lemma generateImages_steps:
  "img \<in> set (fst (generateImages e cnt)) \<Longrightarrow> \<exists>step\<in>set (steps cnt). imageStepNumber img = stepNumber step"
  using generateImagesFrom_steps [of "([], [])" "stepNumber ` set (steps cnt)" "steps cnt" e]
  by (auto simp: generateImages_def)

lemma uploadImages_attachments:
  "attachments (uploadImages e pid imgs s) =
     attachments s @ map (\<lambda>i. (pid, uploadFilename i)) (filter (stored e pid) imgs)"
proof (induction imgs arbitrary: s)
  case Nil
  show ?case by simp
next
  case (Cons img rest)
  show ?case
  proof (cases "axiosGet e (url img)")
    case (Inl err)
    then show ?thesis by (simp add: Cons stored_def)
  next
    case (Inr buf)
    then show ?thesis by (simp add: Cons stored_def Let_def)
  qed
qed

lemma imageMarkup_uploadFilename:
  "imageStepNumber img = stepNumber step \<Longrightarrow>
   imageMarkup step img =
     ''<p><strong>'' @ (if imageOsType img = Mac then ''macOS'' else ''Windows'') @
     '':</strong></p>'' @ newline @
     ''<p><ac:image><ri:attachment '' @ refMarkup (uploadFilename img) @
     '' /></ac:image></p>'' @ newline"
  by (simp add: imageMarkup_def refMarkup_def attachmentRef_uploadFilename)

lemma stepHTML_uploadFilename:
  "stepHTML step imgs =
     stepHead step @
     concat (map (\<lambda>img. ''<p><strong>'' @ (if imageOsType img = Mac then ''macOS'' else ''Windows'') @
                          '':</strong></p>'' @ newline @
                          ''<p><ac:image><ri:attachment '' @ refMarkup (uploadFilename img) @
                          '' /></ac:image></p>'' @ newline)
               (filter (\<lambda>img. imageStepNumber img = stepNumber step) imgs))"
proof -
  have "map (imageMarkup step) (filter (\<lambda>img. imageStepNumber img = stepNumber step) imgs) =
        map (\<lambda>img. ''<p><strong>'' @ (if imageOsType img = Mac then ''macOS'' else ''Windows'') @
                          '':</strong></p>'' @ newline @
                          ''<p><ac:image><ri:attachment '' @ refMarkup (uploadFilename img) @
                          '' /></ac:image></p>'' @ newline)
            (filter (\<lambda>img. imageStepNumber img = stepNumber step) imgs)"
    by (rule map_cong [OF refl]) (simp add: imageMarkup_uploadFilename)
  then show ?thesis by (simp only: stepHTML_def)
qed

lemma uploadImages_stored:
  "img \<in> set imgs \<Longrightarrow> stored e pid img \<Longrightarrow>
   (pid, uploadFilename img) \<in> set (attachments (uploadImages e pid imgs s))"
  by (auto simp: uploadImages_attachments)

text \<open>
  Claim C9 says that every image reference of the page body resolves to an uploaded
  attachment of the same name. The names do agree, but \<open>createKBAPage\<close> creates the page
  first and uploads afterwards, and \<open>uploadImages\<close> catches the failure of a download or
  of an upload, logs it and goes on with the next image. Here the wiki refuses the
  attachment: the page is created and its url returned, its body references
  \<open>step-1-mac.png\<close>, the upload was requested under that name, and no attachment is stored.
\<close>

theorem failed_upload_leaves_reference_unresolved:
  "fst (createKBAPage uploadFailsEnv demoContent [demoImage] ''TECH-456'' initialState) =
     Inr ''https://wiki/wiki/spaces/ORCAS/pages/9001'' \<and>
   sublist (refMarkup ''step-1-mac.png'')
     (pageBody (kbaPage uploadFailsEnv demoContent [demoImage] ''TECH-456'')) \<and>
   calls (snd (createKBAPage uploadFailsEnv demoContent [demoImage] ''TECH-456'' initialState)) =
     [CreatePage (kbaPage uploadFailsEnv demoContent [demoImage] ''TECH-456''),
      Download ''https://img/0'', UploadAttachment ''9001'' ''step-1-mac.png''] \<and>
   attachments (snd (createKBAPage uploadFailsEnv demoContent [demoImage] ''TECH-456'' initialState)) = []"
proof -
  have n: "uploadFilename demoImage = ''step-1-mac.png''" by code_simp
  have "sublist (refMarkup (uploadFilename demoImage))
          (generateConfluenceHTML uploadFailsEnv demoContent [demoImage] ''TECH-456'')"
    by (rule sublist_generateConfluenceHTML [of demoStep1])
       (simp_all add: demoContent_def demoImage_def demoStep1_def)
  then have b: "sublist (refMarkup ''step-1-mac.png'')
     (pageBody (kbaPage uploadFailsEnv demoContent [demoImage] ''TECH-456''))"
    by (simp only: n kbaPage_def page.simps)
  have a: "fst (createKBAPage uploadFailsEnv demoContent [demoImage] ''TECH-456'' initialState) =
     Inr ''https://wiki/wiki/spaces/ORCAS/pages/9001''" by code_simp
  have c: "calls (snd (createKBAPage uploadFailsEnv demoContent [demoImage] ''TECH-456'' initialState)) =
     [CreatePage (kbaPage uploadFailsEnv demoContent [demoImage] ''TECH-456''),
      Download ''https://img/0'', UploadAttachment ''9001'' ''step-1-mac.png'']"
    by code_simp
  have d: "attachments (snd (createKBAPage uploadFailsEnv demoContent [demoImage] ''TECH-456''
                               initialState)) = []"
    by code_simp
  from a b c d show ?thesis by blast
qed

text \<open>
  Claim C9 as amended. The name under which an image is uploaded is
  \<open>step-<stepNumber>-<platform>.png\<close>, and the page body names the images in the same way:
  it is the head of the page, then for each step of the content, in order, the head of the
  step followed by one image reference \<open>ri:filename="<name>"\<close> for each image of the list
  that carries the number of the step, under the upload name of that image, and then the
  tail of the page. Every image that \<open>generateImages\<close> returns for the content carries the
  number of one of its steps and so is referenced under its upload name. The page is created
  before the uploads, and a download or upload that fails is logged and skipped: the upload
  of an image whose download succeeds is requested under its name, and the attachments that
  the wiki stores are, under these names, the images whose download and upload both
  succeed. So the reference to an image resolves when its download and its upload
  succeed.
\<close>

theorem image_references_use_upload_names:
  "uploadFilename img =
     ''step-'' @ showInt (imageStepNumber img) @ ''-'' @ osName (imageOsType img) @ ''.png'' \<and>
   generateConfluenceHTML e cnt imgs jk =
     htmlHead e cnt jk @
     concat (map (\<lambda>step.
                    stepHead step @
                    concat (map (\<lambda>i. ''<p><strong>'' @
                                       (if imageOsType i = Mac then ''macOS'' else ''Windows'') @
                                       '':</strong></p>'' @ newline @
                                       ''<p><ac:image><ri:attachment '' @
                                       refMarkup (uploadFilename i) @
                                       '' /></ac:image></p>'' @ newline)
                              (filter (\<lambda>i. imageStepNumber i = stepNumber step) imgs)))
               (steps cnt)) @
     htmlTail cnt \<and>
   (\<forall>step. step \<in> set (steps cnt) \<and> img \<in> set imgs \<and> imageStepNumber img = stepNumber step \<longrightarrow>
      sublist (refMarkup (uploadFilename img)) (generateConfluenceHTML e cnt imgs jk)) \<and>
   (img \<in> set (fst (generateImages e' cnt)) \<longrightarrow>
      sublist (refMarkup (uploadFilename img))
        (generateConfluenceHTML e cnt (fst (generateImages e' cnt)) jk)) \<and>
   (\<forall>buf. img \<in> set imgs \<and> axiosGet e (url img) = Inr buf \<longrightarrow>
      UploadAttachment pid (uploadFilename img) \<in> set (newCalls s (uploadImages e pid imgs s))) \<and>
   attachments (uploadImages e pid imgs s) =
     attachments s @ map (\<lambda>i. (pid, uploadFilename i)) (filter (stored e pid) imgs) \<and>
   (img \<in> set imgs \<and> stored e pid img \<longrightarrow>
      (pid, uploadFilename img) \<in> set (attachments (uploadImages e pid imgs s)))"
proof (intro conjI allI impI)
  show "uploadFilename img =
     ''step-'' @ showInt (imageStepNumber img) @ ''-'' @ osName (imageOsType img) @ ''.png''"
    by (simp add: uploadFilename_def)
next
  show "generateConfluenceHTML e cnt imgs jk =
     htmlHead e cnt jk @
     concat (map (\<lambda>step.
                    stepHead step @
                    concat (map (\<lambda>i. ''<p><strong>'' @
                                       (if imageOsType i = Mac then ''macOS'' else ''Windows'') @
                                       '':</strong></p>'' @ newline @
                                       ''<p><ac:image><ri:attachment '' @
                                       refMarkup (uploadFilename i) @
                                       '' /></ac:image></p>'' @ newline)
                              (filter (\<lambda>i. imageStepNumber i = stepNumber step) imgs)))
               (steps cnt)) @
     htmlTail cnt"
    by (simp only: generateConfluenceHTML_def stepHTML_uploadFilename)
next
  fix step
  assume "step \<in> set (steps cnt) \<and> img \<in> set imgs \<and> imageStepNumber img = stepNumber step"
  then show "sublist (refMarkup (uploadFilename img)) (generateConfluenceHTML e cnt imgs jk)"
    by (blast intro: sublist_generateConfluenceHTML)
next
  assume g: "img \<in> set (fst (generateImages e' cnt))"
  from generateImages_steps [OF g] obtain step where
    "step \<in> set (steps cnt)" "imageStepNumber img = stepNumber step" by blast
  with g show "sublist (refMarkup (uploadFilename img))
        (generateConfluenceHTML e cnt (fst (generateImages e' cnt)) jk)"
    by (blast intro: sublist_generateConfluenceHTML)
next
  fix buf assume "img \<in> set imgs \<and> axiosGet e (url img) = Inr buf"
  then show "UploadAttachment pid (uploadFilename img) \<in> set (newCalls s (uploadImages e pid imgs s))"
    by (blast intro: uploadImages_requests)
next
  show "attachments (uploadImages e pid imgs s) =
     attachments s @ map (\<lambda>i. (pid, uploadFilename i)) (filter (stored e pid) imgs)"
    by (rule uploadImages_attachments)
next
  assume "img \<in> set imgs \<and> stored e pid img"
  then show "(pid, uploadFilename img) \<in> set (attachments (uploadImages e pid imgs s))"
    by (blast intro: uploadImages_stored)
qed

theorem image_references_use_upload_names_witness:
  "uploadFilename demoImage = ''step-1-mac.png'' \<and>
   demoStep1 \<in> set (steps demoContent) \<and> demoImage \<in> set [demoImage] \<and>
   imageStepNumber demoImage = stepNumber demoStep1 \<and>
   sublist (refMarkup ''step-1-mac.png'')
     (generateConfluenceHTML demoEnv demoContent [demoImage] ''TECH-456'') \<and>
   demoImage \<in> set (fst (generateImages demoEnv demoContent)) \<and>
   sublist (refMarkup ''step-1-mac.png'')
     (generateConfluenceHTML demoEnv demoContent (fst (generateImages demoEnv demoContent)) ''TECH-456'') \<and>
   axiosGet demoEnv (url demoImage) = Inr ''PNG'' \<and>
   UploadAttachment ''9001'' ''step-1-mac.png'' \<in>
     set (newCalls initialState (uploadImages demoEnv ''9001'' [demoImage] initialState)) \<and>
   stored demoEnv ''9001'' demoImage \<and>
   (''9001'', ''step-1-mac.png'') \<in> set (attachments (uploadImages demoEnv ''9001'' [demoImage] initialState))"
proof -
  have n: "uploadFilename demoImage = ''step-1-mac.png''" by code_simp
  have h1: "demoStep1 \<in> set (steps demoContent)" by (simp add: demoContent_def)
  have h2: "demoImage \<in> set [demoImage]" by simp
  have h3: "imageStepNumber demoImage = stepNumber demoStep1"
    by (simp add: demoImage_def demoStep1_def)
  have h4: "demoImage \<in> set (fst (generateImages demoEnv demoContent))" by code_simp
  have h5: "stored demoEnv ''9001'' demoImage" by (simp add: stored_def demoEnv_def)
  have h6: "axiosGet demoEnv (url demoImage) = Inr ''PNG''" by (simp add: demoEnv_def)
  note t = image_references_use_upload_names [of demoImage demoEnv demoContent "[demoImage]"
             "''TECH-456''" demoEnv "''9001''" initialState]
  from t h1 h2 h3 n have r2: "sublist (refMarkup ''step-1-mac.png'')
     (generateConfluenceHTML demoEnv demoContent [demoImage] ''TECH-456'')" by metis
  from image_references_use_upload_names [of demoImage demoEnv demoContent _ "''TECH-456''" demoEnv] h4 n
  have r3: "sublist (refMarkup ''step-1-mac.png'')
     (generateConfluenceHTML demoEnv demoContent (fst (generateImages demoEnv demoContent)) ''TECH-456'')"
    by metis
  from t h2 h6 n have r4: "UploadAttachment ''9001'' ''step-1-mac.png'' \<in>
     set (newCalls initialState (uploadImages demoEnv ''9001'' [demoImage] initialState))" by metis
  from t h2 h5 n have r5: "(''9001'', ''step-1-mac.png'') \<in>
      set (attachments (uploadImages demoEnv ''9001'' [demoImage] initialState))" by metis
  from n h1 h2 h3 r2 h4 r3 h6 r4 h5 r5 show ?thesis by blast
qed

end
